theory Spec2Isabelle
  imports Complex_Main "HOL-Library.Log_Nat"
begin

unbundle bit_operations_syntax

section \<open>Python values\<close>

text \<open>
  Python integers are unbounded: \<open>int\<close>. A Python float is an IEEE binary64 value, kept
  here as sign and magnitude: \<open>Fin s m\<close> is the finite value of magnitude \<open>m\<close> (negative
  when \<open>s\<close> holds, so \<open>Fin True 0\<close> is \<open>-0.0\<close>), \<open>Inf s\<close> an infinity, \<open>NaN\<close> a
  not-a-number. Arithmetic rounds the exact rational result to the nearest binary64
  value, ties to even.
\<close>

datatype pyfloat = Fin bool rat | Inf bool | NaN

datatype pyval = PInt int | PFloat pyfloat

text \<open>
  The outcomes of the source that carry no value. The first four are early
  \<open>return None\<close> paths with their own log line, the last one is a \<open>None\<close> handed on
  from \<open>_decode_registers\<close>; the others are exceptions.
\<close>

datatype error =
    IncompleteData | UnsupportedWordCount | UnsupportedFunctionCode | ErrorResponse
  | StructError | ZeroDivisionError | OverflowError | ValueError | IndexError
  | KeyError | AttributeError | ModbusException | OtherException | DecodeFailure

definition pow2 :: "int \<Rightarrow> rat" where
  "pow2 e = (if 0 \<le> e then 2 ^ nat e else 1 / 2 ^ nat (- e))"

text \<open>\<open>ilog2 a\<close> is the integer part of the binary logarithm of a positive rational.\<close>

definition ilog2 :: "rat \<Rightarrow> int" where
  "ilog2 a = (let (p, q) = quotient_of a; d = bitlen p - bitlen q
              in if a < pow2 d then d - 1 else d)"

definition round_half_even :: "rat \<Rightarrow> int" where
  "round_half_even q = (let f = \<lfloor>q\<rfloor>; r = q - of_int f
     in if r < 1 / 2 then f else if 1 / 2 < r then f + 1 else if even f then f else f + 1)"

text \<open>
  The nearest binary64 magnitude of a rational: 53 significant bits for normal
  numbers, a fixed unit of \<open>2 ^ -1074\<close> for subnormal ones; no upper bound yet.
\<close>

definition round_double :: "rat \<Rightarrow> rat" where
  "round_double a = (if a \<le> 0 then 0
     else let e = max (ilog2 a) (- 1022); ulp = pow2 (e - 52)
          in of_int (round_half_even (a / ulp)) * ulp)"

definition fl :: "bool \<Rightarrow> rat \<Rightarrow> pyfloat" where
  "fl s a = (let m = round_double a in if 2 ^ 1024 \<le> m then Inf s else Fin s m)"

definition signed :: "bool \<Rightarrow> rat \<Rightarrow> rat" where
  "signed s m = (if s then - m else m)"

text \<open>\<open>x == y\<close> on floats: a NaN equals nothing, the two zeros are equal.\<close>

fun float_eq :: "pyfloat \<Rightarrow> pyfloat \<Rightarrow> bool" where
  "float_eq (Fin s m) (Fin t n) = (signed s m = signed t n)"
| "float_eq (Inf s) (Inf t) = (s = t)"
| "float_eq _ _ = False"

text \<open>\<open>float(i)\<close> for an integer: OverflowError when the rounded value is out of range.\<close>

definition float_of_int :: "int \<Rightarrow> error + pyfloat" where
  "float_of_int i = (case fl (i < 0) \<bar>of_int i\<bar> of
       Inf _ \<Rightarrow> Inl OverflowError
     | f \<Rightarrow> Inr f)"

text \<open>\<open>x * y\<close> on floats.\<close>

fun float_mul :: "pyfloat \<Rightarrow> pyfloat \<Rightarrow> pyfloat" where
  "float_mul NaN _ = NaN"
| "float_mul _ NaN = NaN"
| "float_mul (Inf s) (Inf t) = Inf (s \<noteq> t)"
| "float_mul (Inf s) (Fin t n) = (if n = 0 then NaN else Inf (s \<noteq> t))"
| "float_mul (Fin s m) (Inf t) = (if m = 0 then NaN else Inf (s \<noteq> t))"
| "float_mul (Fin s m) (Fin t n) = fl (s \<noteq> t) (m * n)"

text \<open>\<open>x / y\<close> on floats: Python raises ZeroDivisionError on a zero divisor, whatever \<open>x\<close> is.\<close>

fun float_truediv :: "pyfloat \<Rightarrow> pyfloat \<Rightarrow> error + pyfloat" where
  "float_truediv x (Fin t n) =
     (if n = 0 then Inl ZeroDivisionError
      else case x of
          NaN \<Rightarrow> Inr NaN
        | Inf s \<Rightarrow> Inr (Inf (s \<noteq> t))
        | Fin s m \<Rightarrow> Inr (fl (s \<noteq> t) (m / n)))"
| "float_truediv x NaN = Inr NaN"
| "float_truediv x (Inf t) =
     (case x of Fin s m \<Rightarrow> Inr (Fin (s \<noteq> t) 0) | _ \<Rightarrow> Inr NaN)"

text \<open>\<open>value * f\<close> where \<open>f\<close> is a float: an integer operand is converted first.\<close>

fun py_mul :: "pyval \<Rightarrow> pyfloat \<Rightarrow> error + pyfloat" where
  "py_mul (PInt i) f = (case float_of_int i of Inl e \<Rightarrow> Inl e | Inr x \<Rightarrow> Inr (float_mul x f))"
| "py_mul (PFloat x) f = Inr (float_mul x f)"

text \<open>\<open>int(x)\<close> on a float truncates towards zero and raises on NaN and the infinities.\<close>

fun py_int :: "pyfloat \<Rightarrow> error + int" where
  "py_int NaN = Inl ValueError"
| "py_int (Inf s) = Inl OverflowError"
| "py_int (Fin s m) = Inr (if s then - \<lfloor>m\<rfloor> else \<lfloor>m\<rfloor>)"

text \<open>\<open>x == i\<close> for a float and an integer compares the exact values.\<close>

fun float_eq_int :: "pyfloat \<Rightarrow> int \<Rightarrow> bool" where
  "float_eq_int (Fin s m) i = (signed s m = of_int i)"
| "float_eq_int _ i = False"

section \<open>The struct module\<close>

text \<open>
  \<open>struct.pack\<close> of an unsigned integer into \<open>n\<close> bytes and \<open>struct.unpack\<close> of \<open>n\<close>
  bytes, under the byte-order character \<open>>\<close> (big-endian) or \<open><\<close> (little-endian).
  A byte is an integer below 256.
\<close>

definition bytes_le :: "nat \<Rightarrow> int \<Rightarrow> int list" where
  "bytes_le n x = map (\<lambda>i. drop_bit (8 * i) x mod 256) [0..<n]"

definition int_le :: "int list \<Rightarrow> int" where
  "int_le bs = foldr (\<lambda>b acc. b + 256 * acc) bs 0"

definition struct_pack :: "char \<Rightarrow> nat \<Rightarrow> int \<Rightarrow> error + int list" where
  "struct_pack bo n x =
     (if x < 0 \<or> 2 ^ (8 * n) \<le> x then Inl StructError
      else Inr (if bo = CHR ''>'' then rev (bytes_le n x) else bytes_le n x))"

definition unpack_unsigned :: "char \<Rightarrow> int list \<Rightarrow> int" where
  "unpack_unsigned bo bs = int_le (if bo = CHR ''>'' then rev bs else bs)"

text \<open>Formats \<open>h\<close>, \<open>i\<close>, \<open>q\<close>: two's complement.\<close>

definition unpack_signed :: "char \<Rightarrow> int list \<Rightarrow> int" where
  "unpack_signed bo bs = (let u = unpack_unsigned bo bs; w = 8 * length bs
     in if 2 ^ (w - 1) \<le> u then u - 2 ^ w else u)"

text \<open>
  Formats \<open>f\<close> and \<open>d\<close>: an IEEE pattern with \<open>ew\<close> exponent bits and \<open>fw\<close> fraction
  bits (8 and 23, or 11 and 52). Every binary32 value is a binary64 value, so no
  rounding takes place.
\<close>

definition float_of_bits :: "nat \<Rightarrow> nat \<Rightarrow> int \<Rightarrow> pyfloat" where
  "float_of_bits ew fw u = (let
       s = (drop_bit (ew + fw) u mod 2 = 1);
       ex = drop_bit fw u mod 2 ^ ew;
       fr = u mod 2 ^ fw;
       bias = 2 ^ (ew - 1) - 1
     in if ex = 2 ^ ew - 1 then (if fr = 0 then Inf s else NaN)
        else if ex = 0 then Fin s (of_int fr * pow2 (1 - bias - int fw))
        else Fin s (of_int (2 ^ fw + fr) * pow2 (ex - bias - int fw)))"

definition unpack_float :: "char \<Rightarrow> int list \<Rightarrow> pyfloat" where
  "unpack_float bo bs = (let u = unpack_unsigned bo bs
     in if length bs = 4 then float_of_bits 8 23 u else float_of_bits 11 52 u)"

section \<open>Registers and devices (config\_parser.py)\<close>

record modbus_register =
  tag :: string
  address :: int
  function_code :: int
  count :: int
  data_type :: string
  divider :: pyfloat
  multiplier :: pyfloat

record modbus_device =
  name :: string
  device_type :: string
  unit_id :: int
  port :: string
  baudrate :: int
  parity :: string
  stopbits :: int
  bytesize :: int
  timeout :: pyfloat
  poll_period :: int
  byte_order :: string
  word_order :: string
  registers :: "modbus_register list"

definition one_float :: pyfloat where
  "one_float = Fin False 1"

definition needs_scaling :: "modbus_register \<Rightarrow> bool" where
  "needs_scaling reg =
     (\<not> float_eq (multiplier reg) one_float \<or> \<not> float_eq (divider reg) one_float)"

definition is_integer_type :: "modbus_register \<Rightarrow> bool" where
  "is_integer_type reg =
     (data_type reg \<in> set [''uint16'', ''int16'', ''uint32'', ''int32'', ''uint64'', ''int64''])"

text \<open>
  \<open>apply_scaling\<close>: the unscaled value is returned as it is; otherwise
  \<open>(value * multiplier) / divider\<close> in float arithmetic, given back as an integer when
  the register has an integer type and \<open>result == int(result)\<close>.
\<close>

definition apply_scaling :: "modbus_register \<Rightarrow> pyval \<Rightarrow> error + pyval" where
  "apply_scaling reg v =
     (if \<not> needs_scaling reg then Inr v
      else case py_mul v (multiplier reg) of
          Inl e \<Rightarrow> Inl e
        | Inr p \<Rightarrow>
           (case float_truediv p (divider reg) of
              Inl e \<Rightarrow> Inl e
            | Inr result \<Rightarrow>
               if is_integer_type reg then
                 (case py_int result of
                    Inl e \<Rightarrow> Inl e
                  | Inr i \<Rightarrow> if float_eq_int result i then Inr (PInt i)
                            else Inr (PFloat result))
               else Inr (PFloat result)))"

section \<open>Decoding (modbus\_poller.py)\<close>

definition byte_order_char :: "modbus_device \<Rightarrow> char" where
  "byte_order_char dev = (if byte_order dev = ''BIG'' then CHR ''>'' else CHR ''<'')"

text \<open>\<open>struct.unpack(bo + signed_format, struct.pack(bo + unsigned_format, x))[0]\<close>\<close>

definition reinterpret_signed :: "char \<Rightarrow> nat \<Rightarrow> int \<Rightarrow> error + pyval" where
  "reinterpret_signed bo n x = (case struct_pack bo n x of
       Inl e \<Rightarrow> Inl e
     | Inr bs \<Rightarrow> Inr (PInt (unpack_signed bo bs)))"

definition reinterpret_float :: "char \<Rightarrow> nat \<Rightarrow> int \<Rightarrow> error + pyval" where
  "reinterpret_float bo n x = (case struct_pack bo n x of
       Inl e \<Rightarrow> Inl e
     | Inr bs \<Rightarrow> Inr (PFloat (unpack_float bo bs)))"

text \<open>
  The body of \<open>_decode_registers\<close> up to the value handed to \<open>apply_scaling\<close>. The length
  guard comes first; past it, every index read below is in range (the branch taken
  has \<open>count\<close> equal to 1, 2 or 4, and the list has at least \<open>count\<close> elements).
\<close>

definition decode_value :: "int list \<Rightarrow> modbus_register \<Rightarrow> modbus_device \<Rightarrow> error + pyval" where
  "decode_value regs reg dev =
     (if int (length regs) < count reg then Inl IncompleteData
      else let bo = byte_order_char dev; wo = word_order dev in
        if count reg = 1 then
          (if data_type reg = ''uint16'' then Inr (PInt (regs ! 0))
           else if data_type reg = ''int16'' then reinterpret_signed bo 2 (regs ! 0)
           else Inr (PInt (regs ! 0)))
        else if count reg = 2 then
          (let raw = (if wo = ''BIG'' then push_bit 16 (regs ! 0) OR regs ! 1
                      else push_bit 16 (regs ! 1) OR regs ! 0)
           in if data_type reg = ''uint32'' then Inr (PInt raw)
              else if data_type reg = ''int32'' then reinterpret_signed bo 4 raw
              else if data_type reg = ''float32'' then reinterpret_float bo 4 raw
              else Inr (PInt raw))
        else if count reg = 4 then
          (let raw = (if wo = ''BIG''
                      then push_bit 48 (regs ! 0) OR push_bit 32 (regs ! 1)
                           OR push_bit 16 (regs ! 2) OR regs ! 3
                      else push_bit 48 (regs ! 3) OR push_bit 32 (regs ! 2)
                           OR push_bit 16 (regs ! 1) OR regs ! 0)
           in if data_type reg = ''uint64'' then Inr (PInt raw)
              else if data_type reg = ''int64'' then reinterpret_signed bo 8 raw
              else if data_type reg = ''float64'' then reinterpret_float bo 8 raw
              else Inr (PInt raw))
        else Inl UnsupportedWordCount)"

text \<open>The \<open>try\<close> body of \<open>_decode_registers\<close>: the value, then the scaling.\<close>

definition decode_body :: "int list \<Rightarrow> modbus_register \<Rightarrow> modbus_device \<Rightarrow> error + pyval" where
  "decode_body regs reg dev = (case decode_value regs reg dev of
       Inl e \<Rightarrow> Inl e
     | Inr v \<Rightarrow> apply_scaling reg v)"

text \<open>
  \<open>_decode_registers\<close>: every early return and every exception of the body is logged
  and becomes \<open>None\<close>.
\<close>

definition decode_registers :: "int list \<Rightarrow> modbus_register \<Rightarrow> modbus_device \<Rightarrow> pyval option" where
  "decode_registers regs reg dev = (case decode_body regs reg dev of
       Inl e \<Rightarrow> None
     | Inr v \<Rightarrow> Some v)"

section \<open>Reading one register (modbus\_poller.py)\<close>

text \<open>
  What a call of the pymodbus client gives back: an exception, a response whose
  \<open>isError()\<close> holds, a bit response or a register response. The client itself is the
  serial line and the device behind it: a function from the request (function code,
  address, count, slave) to the response.
\<close>

datatype response = Raises error | ErrorResult | Bits "bool list" | Registers "int list"

type_synonym modbus_client = "int \<Rightarrow> int \<Rightarrow> int \<Rightarrow> int \<Rightarrow> response"

text \<open>
  The \<open>try\<close> body of \<open>read_register\<close>. A response of the other kind has no usable
  \<open>bits\<close> or \<open>registers\<close>, which ends in the \<open>except\<close> branch like every exception.
\<close>

definition read_body :: "modbus_client \<Rightarrow> modbus_device \<Rightarrow> modbus_register \<Rightarrow> error + pyval" where
  "read_body client dev reg =
     (if function_code reg \<notin> set [1, 2, 3, 4] then Inl UnsupportedFunctionCode
      else case client (function_code reg) (address reg) (count reg) (unit_id dev) of
          Raises e \<Rightarrow> Inl e
        | ErrorResult \<Rightarrow> Inl ErrorResponse
        | Bits bs \<Rightarrow>
            if function_code reg \<in> set [1, 2] then
              (case bs of
                 [] \<Rightarrow> Inl IndexError
               | b # _ \<Rightarrow> Inr (PFloat (Fin False (if b then 1 else 0))))
            else Inl AttributeError
        | Registers rs \<Rightarrow>
            if function_code reg \<in> set [1, 2] then Inl AttributeError
            else (case decode_registers rs reg dev of
                    None \<Rightarrow> Inl DecodeFailure
                  | Some v \<Rightarrow> Inr v))"

definition read_register :: "modbus_client \<Rightarrow> modbus_device \<Rightarrow> modbus_register \<Rightarrow> pyval option" where
  "read_register client dev reg = (case read_body client dev reg of
       Inl e \<Rightarrow> None
     | Inr v \<Rightarrow> Some v)"

section \<open>The transport registry and the poll cycle (modbus\_poller.py)\<close>

text \<open>
  The poller keeps two dictionaries keyed by the transport key; their values are
  opaque handles, so each is kept as its list of keys in insertion order.
\<close>

record poller =
  clients :: "string list"
  locks :: "string list"

definition init_poller :: poller where
  "init_poller = \<lparr>clients = [], locks = []\<rparr>"

fun digits :: "nat \<Rightarrow> string" where
  "digits n = (if n < 10 then [char_of (48 + n)]
               else digits (n div 10) @ [char_of (48 + n mod 10)])"

definition str_int :: "int \<Rightarrow> string" where
  "str_int i = (if i < 0 then CHR ''-'' # digits (nat (- i)) else digits (nat i))"

definition transport_key :: "modbus_device \<Rightarrow> string" where
  "transport_key dev = port dev @ ''_'' @ str_int (baudrate dev) @ ''_'' @ parity dev"

definition add_key :: "string \<Rightarrow> string list \<Rightarrow> string list" where
  "add_key k ks = (if k \<in> set ks then ks else ks @ [k])"

text \<open>
  What happens around one poll cycle and cannot be read from the program: whether
  \<open>client.connect()\<close> succeeds if it is called, what the serial line answers to the
  i-th register read of the sweep, whether the MQTT session is up, the clock, and what
  the i-th \<open>client.publish\<close> call of the cycle does.
\<close>

datatype pub_outcome = PubRc int | PubRaises error

record world =
  connect_ok :: bool
  bus :: "nat \<Rightarrow> modbus_client"
  mqtt_connected :: bool
  now :: string
  broker :: "nat \<Rightarrow> pub_outcome"

text \<open>
  \<open>get_client\<close> returns the cached client of the key (here: the key), creating it
  first; \<open>None\<close> when the connection cannot be opened, and then nothing is cached.
\<close>

definition get_client :: "world \<Rightarrow> poller \<Rightarrow> modbus_device \<Rightarrow> string option \<times> poller" where
  "get_client w st dev = (let key = transport_key dev in
     if key \<notin> set (clients st) then
       (if \<not> connect_ok w then (None, st)
        else (Some key, st\<lparr>clients := clients st @ [key], locks := add_key key (locks st)\<rparr>))
     else (Some key, st))"

definition close_all :: "poller \<Rightarrow> poller" where
  "close_all st = st\<lparr>clients := []\<rparr>"

text \<open>
  The observable steps of a polling thread. Durations are in milliseconds:
  \<open>time.sleep(0.08)\<close> is \<open>Sleep_ms 80\<close>, \<open>time.sleep(5)\<close> is \<open>Sleep_ms 5000\<close> and
  \<open>time.sleep(poll_period / 1000.0)\<close> is \<open>Sleep_ms poll_period\<close>.
\<close>

datatype payload =
    StatusPayload string string
  | TelemetryPayload string string int string "(string \<times> pyval) list"
  | ValuePayload pyval string

datatype event =
    LockAcquire string
  | LockRelease string
  | ReadRegister string
  | Sleep_ms int
  | MqttPublish string payload nat bool

text \<open>\<open>data[tag] = value\<close> on a dictionary kept in insertion order.\<close>

fun dict_set :: "(string \<times> pyval) list \<Rightarrow> string \<Rightarrow> pyval \<Rightarrow> (string \<times> pyval) list" where
  "dict_set [] k v = [(k, v)]"
| "dict_set ((k', v') # kvs) k v = (if k' = k then (k, v) # kvs else (k', v') # dict_set kvs k v)"

text \<open>
  The \<open>for\<close> loop of \<open>poll_device\<close>, from register number \<open>i\<close> on, with the dictionary,
  the success count and the steps so far.
\<close>

fun sweep :: "world \<Rightarrow> modbus_device \<Rightarrow> nat \<Rightarrow> modbus_register list
    \<Rightarrow> (string \<times> pyval) list \<times> nat \<times> event list
    \<Rightarrow> (string \<times> pyval) list \<times> nat \<times> event list" where
  "sweep w dev i [] acc = acc"
| "sweep w dev i (reg # regs) (data, success_count, tr) =
     (case read_register (bus w i) dev reg of
        None \<Rightarrow>
          sweep w dev (Suc i) regs
            (data, success_count, tr @ [ReadRegister (tag reg), Sleep_ms 80])
      | Some v \<Rightarrow>
          sweep w dev (Suc i) regs
            (dict_set data (tag reg) v, success_count + 1,
             tr @ [ReadRegister (tag reg), Sleep_ms 80]))"

record reading =
  device :: string
  reading_device_type :: string
  reading_unit_id :: int
  status :: string
  data :: "(string \<times> pyval) list"

text \<open>
  \<open>poll_device\<close>: the reading (or the exception that leaves the function), the
  poller afterwards and the steps taken. \<open>self.locks[key]\<close> raises KeyError on a key
  without a lock.
\<close>

definition poll_device :: "world \<Rightarrow> poller \<Rightarrow> modbus_device
    \<Rightarrow> (error + reading) \<times> poller \<times> event list" where
  "poll_device w st dev = (case get_client w st dev of
       (None, st') \<Rightarrow>
         (Inr \<lparr>device = name dev, reading_device_type = device_type dev,
               reading_unit_id = unit_id dev, status = ''disconnected'', data = []\<rparr>, st', [])
     | (Some client, st') \<Rightarrow>
         (let key = transport_key dev in
          if key \<notin> set (locks st') then (Inl KeyError, st', [])
          else case sweep w dev 0 (registers dev) ([], 0, []) of
            (values, success_count, tr) \<Rightarrow>
              (Inr \<lparr>device = name dev, reading_device_type = device_type dev,
                    reading_unit_id = unit_id dev,
                    status = (if 0 < success_count then ''connected'' else ''error''),
                    data = values\<rparr>,
               st', [LockAcquire key] @ tr @ [LockRelease key])))"

section \<open>Publishing (mqtt\_publisher.py)\<close>

definition replace_spaces :: "string \<Rightarrow> string" where
  "replace_spaces s = map (\<lambda>c. if c = CHR '' '' then CHR ''_'' else c) s"

text \<open>
  A \<open>client.publish\<close> call that returns has handed its message to the MQTT client
  and is recorded as an \<open>MqttPublish\<close> step; a call that raises has sent nothing and
  leaves no step.

  The loop over \<open>data.items()\<close>: one message per tag, results ignored; an exception
  of \<open>client.publish\<close> ends it. \<open>i\<close> numbers the publish calls of the cycle.
\<close>

fun publish_tags :: "world \<Rightarrow> string \<Rightarrow> string \<Rightarrow> nat \<Rightarrow> (string \<times> pyval) list
    \<Rightarrow> (error + bool) \<times> event list" where
  "publish_tags w pre timestamp i [] = (Inr True, [])"
| "publish_tags w pre timestamp i ((t, v) # kvs) =
     (let ev = MqttPublish (pre @ t) (ValuePayload v timestamp) 0 True
      in case broker w i of
          PubRaises e \<Rightarrow> (Inl e, [])
        | PubRc rc \<Rightarrow>
            (case publish_tags w pre timestamp (Suc i) kvs of
               (res, evs) \<Rightarrow> (res, ev # evs)))"

definition publish :: "world \<Rightarrow> reading \<Rightarrow> string \<Rightarrow> (error + bool) \<times> event list" where
  "publish w device_data base_topic =
     (if \<not> mqtt_connected w then (Inr False, [])
      else let
          device_name = replace_spaces (device device_data);
          timestamp = now w;
          pre = base_topic @ ''/'' @ device_name @ ''/'';
          status_msg = MqttPublish (pre @ ''status'')
                         (StatusPayload (status device_data) timestamp) 1 True;
          telemetry_msg = MqttPublish (pre @ ''telemetry'')
                         (TelemetryPayload (device device_data) (reading_device_type device_data)
                            (reading_unit_id device_data) timestamp (data device_data)) 1 True
        in case broker w 0 of
            PubRaises e \<Rightarrow> (Inl e, [])
          | PubRc rc0 \<Rightarrow>
              if data device_data = [] then (Inr False, [status_msg])
              else (case broker w 1 of
                  PubRaises e \<Rightarrow> (Inl e, [status_msg])
                | PubRc rc \<Rightarrow>
                    if rc \<noteq> 0 then (Inr False, [status_msg, telemetry_msg])
                    else (case publish_tags w pre timestamp 2 (data device_data) of
                        (res, evs) \<Rightarrow> (res, [status_msg, telemetry_msg] @ evs))))"

section \<open>One iteration of the polling thread (main.py)\<close>

text \<open>The property \<open>poll_interval\<close> of a device: \<open>poll_period / 1000.0\<close>, in seconds.\<close>

definition poll_interval :: "modbus_device \<Rightarrow> error + pyfloat" where
  "poll_interval dev = (case float_of_int (poll_period dev) of
       Inl e \<Rightarrow> Inl e
     | Inr x \<Rightarrow> float_truediv x (Fin False 1000))"

text \<open>
  \<open>time.sleep(secs)\<close> on a float in CPython 3, \<open>None\<close> when it sleeps: the length is
  taken to nanoseconds (a float product, rounded away from zero to a whole number)
  and must fit a signed 64-bit count. A NaN raises ValueError, a length out of that
  range OverflowError, a negative length ValueError.
\<close>

definition time_sleep :: "pyfloat \<Rightarrow> error option" where
  "time_sleep secs = (case secs of
       NaN \<Rightarrow> Some ValueError
     | Inf s \<Rightarrow> Some OverflowError
     | Fin s m \<Rightarrow>
         (case float_mul secs (Fin False 1000000000) of
            Fin s' ns \<Rightarrow>
              if s' then
                (if 2 ^ 63 < \<lceil>ns\<rceil> then Some OverflowError
                 else if 0 < \<lceil>ns\<rceil> then Some ValueError
                 else None)
              else if 2 ^ 63 \<le> \<lceil>ns\<rceil> then Some OverflowError
              else None
          | Inf s' \<Rightarrow> Some OverflowError
          | NaN \<Rightarrow> Some ValueError))"

text \<open>\<open>time.sleep(self.device.poll_interval)\<close>: the exception it ends with, if any.\<close>

definition interval_sleep :: "modbus_device \<Rightarrow> error option" where
  "interval_sleep dev = (case poll_interval dev of
       Inl e \<Rightarrow> Some e
     | Inr secs \<Rightarrow> time_sleep secs)"

text \<open>
  The body of the \<open>while\<close> loop of \<open>DevicePoller.run\<close>: poll, publish when the reading
  has data, sleep for the poll interval; any exception on the way (of the poll, of
  the publisher or of the sleep itself) is logged and followed by a sleep of five
  seconds.
\<close>

definition run_cycle :: "world \<Rightarrow> poller \<Rightarrow> modbus_device \<Rightarrow> string \<Rightarrow> poller \<times> event list" where
  "run_cycle w st dev base_topic = (case poll_device w st dev of
       (Inl e, st', tr) \<Rightarrow> (st', tr @ [Sleep_ms 5000])
     | (Inr device_data, st', tr) \<Rightarrow>
         (case (if data device_data \<noteq> [] then publish w device_data base_topic
                else (Inr False, [])) of
            (Inl e, ptr) \<Rightarrow> (st', tr @ ptr @ [Sleep_ms 5000])
          | (Inr published, ptr) \<Rightarrow>
              (case interval_sleep dev of
                 Some e \<Rightarrow> (st', tr @ ptr @ [Sleep_ms 5000])
               | None \<Rightarrow> (st', tr @ ptr @ [Sleep_ms (poll_period dev)]))))"



fun is_status_message :: "event \<Rightarrow> bool" where
  "is_status_message (MqttPublish topic (StatusPayload s t) qos retain) = True"
| "is_status_message e = False"

fun is_pacing_delay :: "event \<Rightarrow> bool" where
  "is_pacing_delay (Sleep_ms d) = (d = 80)"
| "is_pacing_delay e = False"

fun call_returns :: "pub_outcome \<Rightarrow> bool" where
  "call_returns (PubRc rc) = True"
| "call_returns (PubRaises e) = False"


text \<open>The steps of a sweep over the given registers: a read and a delay for each.\<close>

definition sweep_steps :: "modbus_register list \<Rightarrow> event list" where
  "sweep_steps regs = concat (map (\<lambda>r. [ReadRegister (tag r), Sleep_ms 80]) regs)"

section \<open>Loading a register definition (config\_parser.py)\<close>

text \<open>
  The JSON object of one register, with the keys \<open>_parse_register\<close> reads; an absent
  key is \<open>None\<close>. Numbers are integers or floats as JSON has them.
\<close>

record register_config =
  cfg_type :: "string option"
  cfg_tag :: "string option"
  cfg_address :: "int option"
  cfg_functionCode :: "int option"
  cfg_objectsCount :: "int option"
  cfg_divider :: "pyval option"
  cfg_multiplier :: "pyval option"

definition TYPE_MAPPING :: "(string \<times> string \<times> int) list" where
  "TYPE_MAPPING =
     [(''16uint'', (''uint16'', 1)),
      (''16int'', (''int16'', 1)),
      (''32uint'', (''uint32'', 2)),
      (''32int'', (''int32'', 2)),
      (''32float'', (''float32'', 2)),
      (''float'', (''float32'', 2)),
      (''double'', (''float64'', 4)),
      (''64int'', (''int64'', 4)),
      (''64uint'', (''uint64'', 4))]"

text \<open>\<open>float(reg_config.get(key, 1.0))\<close>\<close>

definition float_or_one :: "pyval option \<Rightarrow> error + pyfloat" where
  "float_or_one x = (case x of
       None \<Rightarrow> Inr one_float
     | Some (PInt i) \<Rightarrow> float_of_int i
     | Some (PFloat f) \<Rightarrow> Inr f)"

text \<open>\<open>_parse_register\<close>: a missing required key or a failed conversion gives \<open>None\<close>.\<close>

definition parse_register :: "register_config \<Rightarrow> modbus_register option" where
  "parse_register reg_config = (let
       type_tag = (case cfg_type reg_config of None \<Rightarrow> ''16uint'' | Some t \<Rightarrow> t);
       (mapped_type, default_count) =
          (case map_of TYPE_MAPPING type_tag of None \<Rightarrow> (''uint16'', 1) | Some p \<Rightarrow> p)
     in case (cfg_tag reg_config, cfg_address reg_config, cfg_functionCode reg_config) of
         (Some t, Some a, Some f) \<Rightarrow>
           (case (float_or_one (cfg_divider reg_config),
                  float_or_one (cfg_multiplier reg_config)) of
              (Inr d, Inr m) \<Rightarrow>
                Some \<lparr>tag = t, address = a, function_code = f,
                      count = (case cfg_objectsCount reg_config of
                                 None \<Rightarrow> default_count | Some c \<Rightarrow> c),
                      data_type = mapped_type, divider = d, multiplier = m\<rparr>
            | _ \<Rightarrow> None)
       | _ \<Rightarrow> None)"

text \<open>
  The word count that goes with a value type: one word for the 16-bit types, two for
  the 32-bit types, four for the 64-bit types.
\<close>

definition type_words :: "string \<Rightarrow> int option" where
  "type_words t = map_of
     [(''uint16'', 1), (''int16'', 1),
      (''uint32'', 2), (''int32'', 2), (''float32'', 2),
      (''uint64'', 4), (''int64'', 4), (''float64'', 4)] t"

section \<open>Reachable registries and sample inputs\<close>

text \<open>
  Every key with a cached client has a lock: true of the empty registry and kept by
  \<open>get_client\<close> and \<open>close_all\<close>.
\<close>

definition registry_ok :: "poller \<Rightarrow> bool" where
  "registry_ok st = (set (clients st) \<subseteq> set (locks st))"

text \<open>The transport can be acquired: a client is cached for the key, or the connection opens.\<close>

definition can_acquire :: "world \<Rightarrow> poller \<Rightarrow> modbus_device \<Rightarrow> bool" where
  "can_acquire w st dev = (transport_key dev \<in> set (clients st) \<or> connect_ok w)"

text \<open>The i-th register of the device decodes to a value in this sweep.\<close>

definition decodes :: "world \<Rightarrow> modbus_device \<Rightarrow> nat \<Rightarrow> bool" where
  "decodes w dev j = (read_register (bus w j) dev (registers dev ! j) \<noteq> None)"

definition reg_half :: modbus_register where
  "reg_half = \<lparr>tag = ''level'', address = 10, function_code = 3, count = 1,
     data_type = ''uint16'', divider = Fin False 2, multiplier = Fin False 1\<rparr>"

definition reg_u32 :: modbus_register where
  "reg_u32 = \<lparr>tag = ''energy'', address = 0, function_code = 3, count = 2,
     data_type = ''uint32'', divider = Fin False 1, multiplier = Fin False 1\<rparr>"

definition reg_wide :: modbus_register where
  "reg_wide = \<lparr>tag = ''counter'', address = 20, function_code = 3, count = 4,
     data_type = ''uint64'', divider = Fin False 2, multiplier = Fin False 1\<rparr>"

definition reg_i16 :: modbus_register where
  "reg_i16 = \<lparr>tag = ''temp'', address = 1, function_code = 4, count = 1,
     data_type = ''int16'', divider = Fin False 1, multiplier = Fin False 1\<rparr>"

definition reg_f32 :: modbus_register where
  "reg_f32 = \<lparr>tag = ''flow'', address = 2, function_code = 4, count = 2,
     data_type = ''float32'', divider = Fin False 1, multiplier = Fin False 1\<rparr>"

definition reg_i32 :: modbus_register where
  "reg_i32 = \<lparr>tag = ''power'', address = 4, function_code = 3, count = 2,
     data_type = ''int32'', divider = Fin False 1, multiplier = Fin False 1\<rparr>"

definition reg_coil :: modbus_register where
  "reg_coil = \<lparr>tag = ''run'', address = 5, function_code = 1, count = 1,
     data_type = ''uint16'', divider = Fin False 10, multiplier = Fin False 3\<rparr>"

definition dev_big :: modbus_device where
  "dev_big = \<lparr>name = ''meter 1'', device_type = ''energy'', unit_id = 1,
     port = ''/dev/ttyUSB0'', baudrate = 9600, parity = ''N'', stopbits = 1, bytesize = 8,
     timeout = Fin False 0, poll_period = 1000, byte_order = ''BIG'', word_order = ''BIG'',
     registers = [reg_half]\<rparr>"

definition line_up :: modbus_client where
  "line_up fc addr cnt slave = (if fc = 1 \<or> fc = 2 then Bits [True] else Registers [100])"

definition line_down :: modbus_client where
  "line_down fc addr cnt slave = ErrorResult"

definition world_up :: world where
  "world_up = \<lparr>connect_ok = True, bus = (\<lambda>i. line_up), mqtt_connected = True,
     now = ''2024-01-01T00:00:00Z'', broker = (\<lambda>i. PubRc 0)\<rparr>"

definition cfg_mismatch :: register_config where
  "cfg_mismatch = \<lparr>cfg_type = Some ''32uint'', cfg_tag = Some ''energy'',
     cfg_address = Some 0, cfg_functionCode = Some 3, cfg_objectsCount = Some 1,
     cfg_divider = None, cfg_multiplier = None\<rparr>"

section \<open>Facts about the decoding engine\<close>

lemma or_shift_add:
  fixes a b :: int
  assumes "0 \<le> b" "b < 2 ^ n"
  shows "push_bit n a OR b = a * 2 ^ n + b"
proof -
  have b: "take_bit n b = b"
    using assms by (simp add: take_bit_int_eq_self)
  have "push_bit n a AND take_bit n b = 0"
    by (auto simp: bit_eq_iff bit_simps)
  then have "push_bit n a + b = push_bit n a OR b"
    using b disjunctive_add_eq_or [of "push_bit n a" b] by simp
  then show ?thesis
    by (simp add: push_bit_eq_mult)
qed

lemma int_le_bytes_le: "int_le (bytes_le n x) = take_bit (8 * n) x"
proof (induction n arbitrary: x)
  case 0
  show ?case by (simp add: bytes_le_def int_le_def)
next
  case (Suc n)
  have "bytes_le (Suc n) x = (x mod 256) # bytes_le n (drop_bit 8 x)"
    by (simp add: bytes_le_def upt_conv_Cons map_Suc_upt [symmetric] drop_bit_drop_bit add.commute
        del: upt_Suc)
  then have "int_le (bytes_le (Suc n) x) = x mod 256 + 256 * take_bit (8 * n) (drop_bit 8 x)"
    using Suc.IH [of "drop_bit 8 x"] by (simp add: int_le_def)
  also have "\<dots> = x mod (256 * 2 ^ (8 * n))"
    using zmod_zmult2_eq [of "2 ^ (8 * n)" x 256] by (simp add: take_bit_eq_mod drop_bit_eq_div)
  also have "\<dots> = take_bit (8 * Suc n) x"
    by (simp add: take_bit_eq_mod power_add)
  finally show ?case .
qed

text \<open>
  What the round trip through \<open>struct\<close> computes, under either byte-order character:
  the two's complement reading of the packed integer.
\<close>

lemma reinterpret_signed_value:
  assumes "0 \<le> x" "x < 2 ^ (8 * n)"
  shows "reinterpret_signed bo n x
     = Inr (PInt (if 2 ^ (8 * n - 1) \<le> x then x - 2 ^ (8 * n) else x))"
proof -
  have "take_bit (8 * n) x = x"
    using assms by (simp add: take_bit_int_eq_self)
  then have "unpack_unsigned bo (if bo = CHR ''>'' then rev (bytes_le n x) else bytes_le n x) = x"
    by (simp add: unpack_unsigned_def int_le_bytes_le)
  moreover have "length (if bo = CHR ''>'' then rev (bytes_le n x) else bytes_le n x) = n"
    by (simp add: bytes_le_def)
  ultimately show ?thesis
    using assms by (simp add: reinterpret_signed_def struct_pack_def unpack_signed_def Let_def)
qed

lemma reinterpret_float_value:
  assumes "0 \<le> x" "x < 2 ^ (8 * n)"
  shows "reinterpret_float bo n x
     = Inr (PFloat (if n = 4 then float_of_bits 8 23 x else float_of_bits 11 52 x))"
proof -
  have "take_bit (8 * n) x = x"
    using assms by (simp add: take_bit_int_eq_self)
  then have "unpack_unsigned bo (if bo = CHR ''>'' then rev (bytes_le n x) else bytes_le n x) = x"
    by (simp add: unpack_unsigned_def int_le_bytes_le)
  moreover have "length (if bo = CHR ''>'' then rev (bytes_le n x) else bytes_le n x) = n"
    by (simp add: bytes_le_def)
  ultimately show ?thesis
    using assms by (simp add: reinterpret_float_def struct_pack_def unpack_float_def Let_def)
qed

text \<open>Two words of 16 bits, the first one on top: the value, its range, its typed reading.\<close>

lemma two_words_typed:
  assumes "count reg = 2" and "0 \<le> hi" "hi < 65536" "0 \<le> lo" "lo < 65536"
    and "push_bit 16 hi OR lo = raw"
  shows "(if data_type reg = ''uint32'' then Inr (PInt raw)
          else if data_type reg = ''int32'' then reinterpret_signed bo 4 raw
          else if data_type reg = ''float32'' then reinterpret_float bo 4 raw
          else Inr (PInt raw))
     = Inr (if data_type reg = ''int32''
            then PInt (if 2147483648 \<le> hi * 65536 + lo
                       then hi * 65536 + lo - 4294967296 else hi * 65536 + lo)
            else if data_type reg = ''float32'' then PFloat (float_of_bits 8 23 (hi * 65536 + lo))
            else PInt (hi * 65536 + lo))"
proof -
  have raw: "raw = hi * 65536 + lo"
    using or_shift_add [of lo 16 hi] assms by simp
  have "hi * 65536 \<le> 65535 * 65536"
    using assms by simp
  then have r: "0 \<le> raw" "raw < 2 ^ (8 * 4)"
    using assms raw by simp_all
  show ?thesis
    using reinterpret_signed_value [OF r, of bo] reinterpret_float_value [OF r, of bo]
    by (simp add: raw)
qed

lemma apply_scaling_plain: "\<not> needs_scaling reg \<Longrightarrow> apply_scaling reg v = Inr v"
  by (simp add: apply_scaling_def)

lemma decode_value_two_words:
  assumes "count reg = 2"
  shows "decode_value (r0 # r1 # rest) reg dev =
     (let raw = (if word_order dev = ''BIG'' then push_bit 16 r0 OR r1 else push_bit 16 r1 OR r0)
      in if data_type reg = ''uint32'' then Inr (PInt raw)
         else if data_type reg = ''int32'' then reinterpret_signed (byte_order_char dev) 4 raw
         else if data_type reg = ''float32'' then reinterpret_float (byte_order_char dev) 4 raw
         else Inr (PInt raw))"
  using assms by (simp add: decode_value_def Let_def)

lemma byte_order_char_word_order [simp]:
  "byte_order_char (dev\<lparr>word_order := w\<rparr>) = byte_order_char dev"
  by (simp add: byte_order_char_def)

lemma reg_u32_plain: "\<not> needs_scaling reg_u32"
  by (simp add: needs_scaling_def reg_u32_def one_float_def)

text \<open>
  C1. A register of two words, each word a 16-bit value, decodes from the integer
  that has the first word in the upper 16 bits and the second in the lower 16 bits
  under \<open>BIG\<close>, and the words in the reverse positions under any other word order,
  whatever the type of the register: that integer read as two's complement for
  int32, as an IEEE pattern for float32, as it is otherwise, and then scaled. Any
  word order other than \<open>BIG\<close> decodes as \<open>BIG\<close> does on the two words swapped, and
  under \<open>BIG\<close> an unscaled uint32 register decodes to the first word times 65536
  plus the second word. So \<open>[0x0001, 0x0000]\<close> gives 65536 under \<open>BIG\<close> and 1 under
  \<open>LITTLE\<close>.
\<close>

theorem word_order_two_words:
  assumes "count reg = 2"
  shows "(word_order dev \<noteq> ''BIG'' \<longrightarrow>
            decode_registers (r0 # r1 # rest) reg dev
            = decode_registers (r1 # r0 # rest) reg (dev\<lparr>word_order := ''BIG''\<rparr>))
       \<and> (word_order dev = ''BIG'' \<and> data_type reg = ''uint32'' \<and> \<not> needs_scaling reg
            \<and> 0 \<le> r1 \<and> r1 < 65536 \<longrightarrow>
            decode_registers (r0 # r1 # rest) reg dev = Some (PInt (r0 * 65536 + r1)))
       \<and> (0 \<le> r0 \<and> r0 < 65536 \<and> 0 \<le> r1 \<and> r1 < 65536 \<longrightarrow>
            decode_registers (r0 # r1 # rest) reg dev
            = (let raw = (if word_order dev = ''BIG'' then r0 * 65536 + r1
                          else r1 * 65536 + r0)
               in case apply_scaling reg
                     (if data_type reg = ''int32''
                      then PInt (if 2147483648 \<le> raw then raw - 4294967296 else raw)
                      else if data_type reg = ''float32'' then PFloat (float_of_bits 8 23 raw)
                      else PInt raw) of
                    Inl e \<Rightarrow> None
                  | Inr v \<Rightarrow> Some v))"
proof (intro conjI impI)
  assume "word_order dev \<noteq> ''BIG''"
  then have "decode_value (r0 # r1 # rest) reg dev
      = decode_value (r1 # r0 # rest) reg (dev\<lparr>word_order := ''BIG''\<rparr>)"
    using assms by (simp add: decode_value_two_words Let_def)
  then show "decode_registers (r0 # r1 # rest) reg dev
      = decode_registers (r1 # r0 # rest) reg (dev\<lparr>word_order := ''BIG''\<rparr>)"
    by (simp add: decode_registers_def decode_body_def)
next
  assume h: "word_order dev = ''BIG'' \<and> data_type reg = ''uint32'' \<and> \<not> needs_scaling reg
      \<and> 0 \<le> r1 \<and> r1 < 65536"
  then have "push_bit 16 r0 OR r1 = r0 * 65536 + r1"
    using or_shift_add [of r1 16 r0] by simp
  with h assms show "decode_registers (r0 # r1 # rest) reg dev = Some (PInt (r0 * 65536 + r1))"
    by (simp add: decode_registers_def decode_body_def decode_value_two_words Let_def
        apply_scaling_plain)
next
  assume h: "0 \<le> r0 \<and> r0 < 65536 \<and> 0 \<le> r1 \<and> r1 < 65536"
  show "decode_registers (r0 # r1 # rest) reg dev
      = (let raw = (if word_order dev = ''BIG'' then r0 * 65536 + r1 else r1 * 65536 + r0)
         in case apply_scaling reg
               (if data_type reg = ''int32''
                then PInt (if 2147483648 \<le> raw then raw - 4294967296 else raw)
                else if data_type reg = ''float32'' then PFloat (float_of_bits 8 23 raw)
                else PInt raw) of
              Inl e \<Rightarrow> None
            | Inr v \<Rightarrow> Some v)"
  proof (cases "word_order dev = ''BIG''")
    case True
    have "decode_value (r0 # r1 # rest) reg dev
        = Inr (if data_type reg = ''int32''
               then PInt (if 2147483648 \<le> r0 * 65536 + r1
                          then r0 * 65536 + r1 - 4294967296 else r0 * 65536 + r1)
               else if data_type reg = ''float32''
               then PFloat (float_of_bits 8 23 (r0 * 65536 + r1))
               else PInt (r0 * 65536 + r1))"
      using two_words_typed [of reg r0 r1 "push_bit 16 r0 OR r1" "byte_order_char dev"]
        assms h True
      by (simp add: decode_value_two_words Let_def)
    then show ?thesis
      using True by (simp add: decode_registers_def decode_body_def Let_def)
  next
    case False
    have "decode_value (r0 # r1 # rest) reg dev
        = Inr (if data_type reg = ''int32''
               then PInt (if 2147483648 \<le> r1 * 65536 + r0
                          then r1 * 65536 + r0 - 4294967296 else r1 * 65536 + r0)
               else if data_type reg = ''float32''
               then PFloat (float_of_bits 8 23 (r1 * 65536 + r0))
               else PInt (r1 * 65536 + r0))"
      using two_words_typed [of reg r1 r0 "push_bit 16 r1 OR r0" "byte_order_char dev"]
        assms h False
      by (simp add: decode_value_two_words Let_def)
    then show ?thesis
      using False by (simp add: decode_registers_def decode_body_def Let_def)
  qed
qed

lemma reg_i32_plain: "apply_scaling reg_i32 v = Inr v"
  by (simp add: apply_scaling_def needs_scaling_def reg_i32_def one_float_def)

theorem word_order_two_words_witness:
  "count reg_u32 = 2
   \<and> decode_registers [1, 0] reg_u32 dev_big = Some (PInt 65536)
   \<and> decode_registers [1, 0] reg_u32 (dev_big\<lparr>word_order := ''LITTLE''\<rparr>) = Some (PInt 1)
   \<and> count reg_i32 = 2
   \<and> decode_registers [65535, 65534] reg_i32 dev_big = Some (PInt (- 2))
   \<and> decode_registers [65535, 65534] reg_i32 (dev_big\<lparr>word_order := ''LITTLE''\<rparr>)
       = Some (PInt (- 65537))"
proof -
  have c: "count reg_u32 = 2" by (simp add: reg_u32_def)
  have t: "data_type reg_u32 = ''uint32''" by (simp add: reg_u32_def)
  have wb: "word_order dev_big = ''BIG''" by (simp add: dev_big_def)
  have big: "decode_registers [1, 0] reg_u32 dev_big = Some (PInt 65536)"
    using word_order_two_words [OF c, of dev_big 1 0 "[]"] t wb reg_u32_plain by simp
  have big': "decode_registers [0, 1] reg_u32 dev_big = Some (PInt 1)"
    using word_order_two_words [OF c, of dev_big 0 1 "[]"] t wb reg_u32_plain by simp
  have "dev_big\<lparr>word_order := ''LITTLE'', word_order := ''BIG''\<rparr> = dev_big"
    by (simp add: dev_big_def)
  then have little: "decode_registers [1, 0] reg_u32 (dev_big\<lparr>word_order := ''LITTLE''\<rparr>)
      = Some (PInt 1)"
    using word_order_two_words [OF c, of "dev_big\<lparr>word_order := ''LITTLE''\<rparr>" 1 0 "[]"] big'
    by simp
  have c': "count reg_i32 = 2" by (simp add: reg_i32_def)
  have t': "data_type reg_i32 = ''int32''" by (simp add: reg_i32_def)
  have sbig: "decode_registers [65535, 65534] reg_i32 dev_big = Some (PInt (- 2))"
    using word_order_two_words [OF c', of dev_big 65535 65534 "[]", THEN conjunct2, THEN conjunct2]
      t' wb
    by (simp add: reg_i32_plain)
  have slittle: "decode_registers [65535, 65534] reg_i32 (dev_big\<lparr>word_order := ''LITTLE''\<rparr>)
      = Some (PInt (- 65537))"
    using word_order_two_words [OF c', of "dev_big\<lparr>word_order := ''LITTLE''\<rparr>" 65535 65534 "[]",
        THEN conjunct2, THEN conjunct2] t'
    by (simp add: reg_i32_plain)
  show ?thesis
    using c big little c' sbig slittle by simp
qed

subsection \<open>Scaling\<close>

lemma whole_floor: "(m::rat) \<in> \<int> \<longleftrightarrow> of_int \<lfloor>m\<rfloor> = m"
  by (metis Ints_of_int of_int_floor)

lemma py_int_whole:
  "py_int (Fin s m) = Inr i \<Longrightarrow> float_eq_int (Fin s m) i \<longleftrightarrow> m \<in> \<int>"
  by (auto simp: signed_def whole_floor)

lemma py_int_signed:
  "m \<in> \<int> \<Longrightarrow> py_int (Fin s m) = Inr \<lfloor>signed s m\<rfloor>"
  by (auto simp: signed_def elim!: Ints_cases)

lemma apply_scaling_int_value:
  assumes "is_integer_type reg" and "needs_scaling reg"
    and "py_mul (PInt v) (multiplier reg) = Inr p"
  shows "apply_scaling reg (PInt v) =
     (case float_truediv p (divider reg) of
        Inl e \<Rightarrow> Inl e
      | Inr NaN \<Rightarrow> Inl ValueError
      | Inr (Inf s) \<Rightarrow> Inl OverflowError
      | Inr (Fin s m) \<Rightarrow> Inr (if m \<in> \<int> then PInt \<lfloor>signed s m\<rfloor> else PFloat (Fin s m)))"
proof (cases "float_truediv p (divider reg)")
  case (Inl e)
  with assms show ?thesis by (simp add: apply_scaling_def)
next
  case (Inr result)
  show ?thesis
  proof (cases result)
    case (Fin s m)
    obtain i where i: "py_int (Fin s m) = Inr i" by simp
    have eq: "float_eq_int (Fin s m) i \<longleftrightarrow> m \<in> \<int>"
      using i by (rule py_int_whole)
    have "m \<in> \<int> \<Longrightarrow> i = \<lfloor>signed s m\<rfloor>"
      using i py_int_signed [of m s] by simp
    with assms Inr Fin i eq show ?thesis
      by (simp add: apply_scaling_def del: py_int.simps float_eq_int.simps)
  next
    case (Inf s)
    with assms Inr show ?thesis by (simp add: apply_scaling_def)
  next
    case NaN
    with assms Inr show ?thesis by (simp add: apply_scaling_def)
  qed
qed

lemma round_double_100: "round_double 100 = 100"
  by code_simp

lemma round_double_50: "round_double 50 = 50"
  by code_simp

lemma round_double_third: "round_double (100 / 3) = 4691249611844267 / 140737488355328"
  by code_simp

lemma round_double_2p53: "round_double 9007199254740993 = 9007199254740992"
  by code_simp

lemma round_double_2p53': "round_double 9007199254740992 = 9007199254740992"
  by code_simp

lemma round_double_2p52: "round_double 4503599627370496 = 4503599627370496"
  by code_simp

lemma floor_third: "\<lfloor>4691249611844267 / 140737488355328 :: rat\<rfloor> = 33"
  by code_simp

lemma floor_half: "\<lfloor>9007199254740993 / 2 :: rat\<rfloor> = 4503599627370496"
  by code_simp

lemma float_100: "float_of_int 100 = Inr (Fin False 100)"
  by (simp add: float_of_int_def fl_def round_double_100)

lemma is_integer_type_uint16: "data_type reg = ''uint16'' \<Longrightarrow> is_integer_type reg"
  by (simp add: is_integer_type_def)

lemma is_integer_type_uint64: "data_type reg = ''uint64'' \<Longrightarrow> is_integer_type reg"
  by (simp add: is_integer_type_def)

lemma reg_half_scaled: "apply_scaling reg_half (PInt 100) = Inr (PInt 50)"
proof -
  have "is_integer_type reg_half"
    by (simp add: is_integer_type_uint16 reg_half_def)
  moreover have "needs_scaling reg_half"
    by (simp add: needs_scaling_def reg_half_def one_float_def signed_def)
  moreover have "py_mul (PInt 100) (multiplier reg_half) = Inr (Fin False 100)"
    by (simp add: reg_half_def float_100 fl_def round_double_100)
  ultimately show ?thesis
    using apply_scaling_int_value [of reg_half 100 "Fin False 100"]
    by (simp add: reg_half_def fl_def round_double_50 signed_def)
qed

text \<open>
  C2, as the code has it. For a register of an integer type with scaling configured and
  an integer raw value, let \<open>r\<close> be \<open>(value * multiplier) / divider\<close> in double-precision
  arithmetic. A zero divider raises; a finite \<open>r\<close> is returned as an integer when it is
  whole and as the float \<open>r\<close> otherwise; an infinite \<open>r\<close> or a NaN raises.
\<close>

theorem apply_scaling_integral:
  assumes "is_integer_type reg" and "needs_scaling reg"
    and "py_mul (PInt v) (multiplier reg) = Inr p"
  shows "apply_scaling reg (PInt v) =
     (case float_truediv p (divider reg) of
        Inl e \<Rightarrow> Inl e
      | Inr NaN \<Rightarrow> Inl ValueError
      | Inr (Inf s) \<Rightarrow> Inl OverflowError
      | Inr (Fin s m) \<Rightarrow> Inr (if m \<in> \<int> then PInt \<lfloor>signed s m\<rfloor> else PFloat (Fin s m)))"
  using assms by (rule apply_scaling_int_value)

theorem apply_scaling_integral_witness:
  "is_integer_type reg_half \<and> needs_scaling reg_half
   \<and> py_mul (PInt 100) (multiplier reg_half) = Inr (Fin False 100)
   \<and> apply_scaling reg_half (PInt 100) = Inr (PInt 50)
   \<and> apply_scaling (reg_half\<lparr>divider := Fin False 3\<rparr>) (PInt 100)
       = Inr (PFloat (Fin False (4691249611844267 / 140737488355328)))
   \<and> (4691249611844267 / 140737488355328 :: rat) \<notin> \<int>
   \<and> \<bar>4691249611844267 / 140737488355328 - 3333 / 100 :: rat\<bar> < 1 / 100"
proof -
  have t: "is_integer_type reg_half" "is_integer_type (reg_half\<lparr>divider := Fin False 3\<rparr>)"
    by (simp_all add: is_integer_type_uint16 reg_half_def)
  have n: "needs_scaling reg_half" "needs_scaling (reg_half\<lparr>divider := Fin False 3\<rparr>)"
    by (simp_all add: needs_scaling_def reg_half_def one_float_def signed_def)
  have m: "py_mul (PInt 100) (multiplier reg_half) = Inr (Fin False 100)"
    "py_mul (PInt 100) (multiplier (reg_half\<lparr>divider := Fin False 3\<rparr>)) = Inr (Fin False 100)"
    by (simp_all add: reg_half_def float_100 fl_def round_double_100)
  have w: "(4691249611844267 / 140737488355328 :: rat) \<notin> \<int>"
    unfolding whole_floor floor_third by simp
  have a: "apply_scaling reg_half (PInt 100) = Inr (PInt 50)"
    using apply_scaling_integral [OF t(1) n(1) m(1)]
    by (simp add: reg_half_def fl_def round_double_50 signed_def)
  have b: "apply_scaling (reg_half\<lparr>divider := Fin False 3\<rparr>) (PInt 100)
       = Inr (PFloat (Fin False (4691249611844267 / 140737488355328)))"
    using apply_scaling_integral [OF t(2) n(2) m(2)] w
    by (simp add: reg_half_def fl_def round_double_third)
  show ?thesis using t n m a b w by simp
qed

text \<open>
  The statement of the specification fails twice: a divider of zero gives no
  value at all, and the raw value \<open>2 ^ 53 + 1\<close> halved comes back as an integer although
  the exact quotient is not whole.
\<close>

theorem apply_scaling_counterexample:
  "apply_scaling (reg_half\<lparr>divider := Fin False 0\<rparr>) (PInt 100) = Inl ZeroDivisionError
   \<and> apply_scaling reg_wide (PInt 9007199254740993) = Inr (PInt 4503599627370496)
   \<and> (9007199254740993 * 1 / 2 :: rat) \<notin> \<int>"
proof -
  have t: "is_integer_type (reg_half\<lparr>divider := Fin False 0\<rparr>)" "is_integer_type reg_wide"
    by (simp_all add: is_integer_type_uint16 is_integer_type_uint64 reg_half_def reg_wide_def)
  have n: "needs_scaling (reg_half\<lparr>divider := Fin False 0\<rparr>)" "needs_scaling reg_wide"
    by (simp_all add: needs_scaling_def reg_half_def reg_wide_def one_float_def signed_def)
  have m1: "py_mul (PInt 100) (multiplier (reg_half\<lparr>divider := Fin False 0\<rparr>)) = Inr (Fin False 100)"
    by (simp add: reg_half_def float_100 fl_def round_double_100)
  have "float_of_int 9007199254740993 = Inr (Fin False 9007199254740992)"
    by (simp add: float_of_int_def fl_def round_double_2p53)
  then have m2: "py_mul (PInt 9007199254740993) (multiplier reg_wide) = Inr (Fin False 9007199254740992)"
    by (simp add: reg_wide_def fl_def round_double_2p53')
  have d2: "float_truediv (Fin False 9007199254740992) (divider reg_wide)
      = Inr (Fin False 4503599627370496)"
    by (simp add: reg_wide_def fl_def round_double_2p52)
  have "apply_scaling (reg_half\<lparr>divider := Fin False 0\<rparr>) (PInt 100) = Inl ZeroDivisionError"
    using apply_scaling_int_value [OF t(1) n(1) m1] by (simp add: reg_half_def)
  moreover have "apply_scaling reg_wide (PInt 9007199254740993) = Inr (PInt 4503599627370496)"
    using apply_scaling_int_value [OF t(2) n(2) m2] by (simp add: d2 signed_def)
  moreover have "(9007199254740993 * 1 / 2 :: rat) \<notin> \<int>"
    unfolding whole_floor mult_1_right floor_half by simp
  ultimately show ?thesis by simp
qed

subsection \<open>Coils and discrete inputs\<close>

lemma read_body_coil:
  assumes "function_code reg = 1 \<or> function_code reg = 2"
  shows "read_body client dev reg =
     (case client (function_code reg) (address reg) (count reg) (unit_id dev) of
          Raises e \<Rightarrow> Inl e
        | ErrorResult \<Rightarrow> Inl ErrorResponse
        | Bits bs \<Rightarrow>
              (case bs of
                 [] \<Rightarrow> Inl IndexError
               | b # _ \<Rightarrow> Inr (PFloat (Fin False (if b then 1 else 0))))
        | Registers rs \<Rightarrow> Inl AttributeError)"
proof -
  have a: "function_code reg \<in> set [1, 2, 3, 4]" and b: "function_code reg \<in> set [1, 2]"
    using assms by auto
  show ?thesis
    unfolding read_body_def using a b by (simp only: not_True_eq_False not_not if_True if_False)
qed

text \<open>
  C4. A register read with function code 1 or 2 gives no value, \<open>0.0\<close> or \<open>1.0\<close>, and
  the result does not depend on the multiplier and the divider.
\<close>

theorem coil_bypass:
  assumes "function_code reg = 1 \<or> function_code reg = 2"
  shows "read_register client dev reg
           \<in> {None, Some (PFloat (Fin False 0)), Some (PFloat (Fin False 1))}
       \<and> read_register client dev (reg\<lparr>multiplier := m, divider := d\<rparr>)
           = read_register client dev reg"
proof
  show "read_register client dev reg
           \<in> {None, Some (PFloat (Fin False 0)), Some (PFloat (Fin False 1))}"
    unfolding read_register_def read_body_coil [OF assms]
    by (simp split: response.split list.split)
next
  have "function_code (reg\<lparr>multiplier := m, divider := d\<rparr>) = 1
      \<or> function_code (reg\<lparr>multiplier := m, divider := d\<rparr>) = 2"
    using assms by simp
  then show "read_register client dev (reg\<lparr>multiplier := m, divider := d\<rparr>)
           = read_register client dev reg"
    unfolding read_register_def read_body_coil [OF assms]
    by (simp add: read_body_coil)
qed

theorem coil_bypass_witness:
  "(function_code reg_coil = 1 \<or> function_code reg_coil = 2)
   \<and> read_register line_up dev_big reg_coil = Some (PFloat (Fin False 1))
   \<and> read_register line_up dev_big (reg_coil\<lparr>multiplier := Fin False 1, divider := Fin False 1\<rparr>)
       = Some (PFloat (Fin False 1))"
proof -
  have f: "function_code reg_coil = 1 \<or> function_code reg_coil = 2"
    by (simp add: reg_coil_def)
  have v: "read_register line_up dev_big reg_coil = Some (PFloat (Fin False 1))"
    unfolding read_register_def read_body_coil [OF f]
    by (simp add: reg_coil_def line_up_def)
  show ?thesis
    using coil_bypass [OF f, of line_up dev_big "Fin False 1" "Fin False 1"] f v by simp
qed

subsection \<open>The length guard\<close>

text \<open>
  C5. With fewer raw words than \<open>count\<close>, the body of the decoder ends at the guard
  with \<open>IncompleteData\<close> and the decoder returns no value, whatever the words, the
  type and the orders are.
\<close>

theorem incomplete_data_guard:
  assumes "int (length regs) < count reg"
  shows "decode_body regs reg dev = Inl IncompleteData \<and> decode_registers regs reg dev = None"
  using assms by (simp add: decode_registers_def decode_body_def decode_value_def)

theorem incomplete_data_guard_witness:
  "int (length [1 :: int]) < count reg_u32
   \<and> decode_body [1] reg_u32 dev_big = Inl IncompleteData
   \<and> decode_registers [1] reg_u32 dev_big = None"
proof -
  have h: "int (length [1 :: int]) < count reg_u32"
    by (simp add: reg_u32_def)
  show ?thesis
    using incomplete_data_guard [OF h, of dev_big] h by simp
qed

subsection \<open>Byte order\<close>

lemma reinterpret_signed_any_order:
  "reinterpret_signed bo n x = reinterpret_signed bo' n x"
  by (simp add: reinterpret_signed_def struct_pack_def unpack_signed_def unpack_unsigned_def)

lemma reinterpret_float_any_order:
  "reinterpret_float bo n x = reinterpret_float bo' n x"
  by (simp add: reinterpret_float_def struct_pack_def unpack_float_def unpack_unsigned_def)

lemma decode_value_any_order:
  "decode_value regs reg (dev\<lparr>byte_order := b1\<rparr>) = decode_value regs reg (dev\<lparr>byte_order := b2\<rparr>)"
  unfolding decode_value_def Let_def
  using reinterpret_signed_any_order [of "byte_order_char (dev\<lparr>byte_order := b1\<rparr>)" _ _ "byte_order_char (dev\<lparr>byte_order := b2\<rparr>)"]
        reinterpret_float_any_order [of "byte_order_char (dev\<lparr>byte_order := b1\<rparr>)" _ _ "byte_order_char (dev\<lparr>byte_order := b2\<rparr>)"]
  by simp

text \<open>
  C10. The decoded result is the same under any two settings of the byte order of the
  device, for every word list and every register.
\<close>

theorem byte_order_irrelevant:
  "decode_registers regs reg (dev\<lparr>byte_order := b1\<rparr>)
   = decode_registers regs reg (dev\<lparr>byte_order := b2\<rparr>)"
  using decode_value_any_order [where regs = regs and reg = reg and dev = dev
      and ?b1.0 = b1 and ?b2.0 = b2]
  by (simp add: decode_registers_def decode_body_def)

lemma reinterpret_float_sample:
  "reinterpret_float (CHR ''>'') 4 1069547520 = Inr (PFloat (Fin False (3 / 2)))"
  by code_simp

theorem byte_order_irrelevant_witness:
  "decode_registers [65535] reg_i16 (dev_big\<lparr>byte_order := ''BIG''\<rparr>) = Some (PInt (- 1))
   \<and> decode_registers [65535] reg_i16 (dev_big\<lparr>byte_order := ''LITTLE''\<rparr>) = Some (PInt (- 1))
   \<and> decode_registers [16320, 0] reg_f32 (dev_big\<lparr>byte_order := ''BIG''\<rparr>)
       = Some (PFloat (Fin False (3 / 2)))
   \<and> decode_registers [16320, 0] reg_f32 (dev_big\<lparr>byte_order := ''LITTLE''\<rparr>)
       = Some (PFloat (Fin False (3 / 2)))"
proof -
  have p: "\<not> needs_scaling reg_i16" "\<not> needs_scaling reg_f32"
    by (simp_all add: needs_scaling_def reg_i16_def reg_f32_def one_float_def)
  have "decode_value [65535] reg_i16 (dev_big\<lparr>byte_order := ''BIG''\<rparr>) = Inr (PInt (- 1))"
    using reinterpret_signed_value [of 65535 2 "CHR ''>''"]
    by (simp add: decode_value_def reg_i16_def byte_order_char_def)
  then have a: "decode_registers [65535] reg_i16 (dev_big\<lparr>byte_order := ''BIG''\<rparr>)
      = Some (PInt (- 1))"
    by (simp add: decode_registers_def decode_body_def apply_scaling_plain [OF p(1)])
  have "push_bit 16 16320 OR 0 = (1069547520 :: int)"
    by (simp add: push_bit_eq_mult)
  then have "decode_value [16320, 0] reg_f32 (dev_big\<lparr>byte_order := ''BIG''\<rparr>)
      = Inr (PFloat (Fin False (3 / 2)))"
    using reinterpret_float_sample
    by (simp add: decode_value_def reg_f32_def byte_order_char_def dev_big_def)
  then have b: "decode_registers [16320, 0] reg_f32 (dev_big\<lparr>byte_order := ''BIG''\<rparr>)
      = Some (PFloat (Fin False (3 / 2)))"
    by (simp add: decode_registers_def decode_body_def apply_scaling_plain [OF p(2)])
  show ?thesis
    using a b
      byte_order_irrelevant [where regs = "[65535]" and reg = reg_i16 and dev = dev_big
        and ?b1.0 = "''BIG''" and ?b2.0 = "''LITTLE''"]
      byte_order_irrelevant [where regs = "[16320, 0]" and reg = reg_f32 and dev = dev_big
        and ?b1.0 = "''BIG''" and ?b2.0 = "''LITTLE''"]
    by simp
qed

section \<open>Facts about the registry and the poll cycle\<close>

lemma registry_ok_init: "registry_ok init_poller"
  by (simp add: registry_ok_def init_poller_def)

lemma registry_ok_get_client: "registry_ok st \<Longrightarrow> registry_ok (snd (get_client w st dev))"
  by (auto simp: registry_ok_def get_client_def add_key_def Let_def)

lemma registry_ok_close_all: "registry_ok st \<Longrightarrow> registry_ok (close_all st)"
  by (simp add: registry_ok_def close_all_def)

lemma get_client_down: "\<not> can_acquire w st dev \<Longrightarrow> get_client w st dev = (None, st)"
  by (simp add: can_acquire_def get_client_def)

lemma get_client_up:
  "can_acquire w st dev \<Longrightarrow> fst (get_client w st dev) = Some (transport_key dev)"
  by (auto simp: can_acquire_def get_client_def Let_def)

lemma get_client_lock:
  "registry_ok st \<Longrightarrow> can_acquire w st dev
   \<Longrightarrow> transport_key dev \<in> set (locks (snd (get_client w st dev)))"
  by (auto simp: registry_ok_def can_acquire_def get_client_def add_key_def Let_def)

lemma sweep_trace:
  "snd (snd (sweep w dev i regs (d, c, t))) = t @ sweep_steps regs"
  by (induction regs arbitrary: i d c t) (simp_all add: sweep_steps_def split: option.split)

lemma dict_set_not_empty [simp]: "dict_set d k v \<noteq> []"
  by (cases d) (auto split: if_splits)

lemma ex_less_Suc_shift:
  "(\<exists>j<Suc n. P j) \<longleftrightarrow> P 0 \<or> (\<exists>j<n. P (Suc j))"
  by (metis less_Suc_eq_0_disj)

lemma sweep_count_pos:
  "0 < fst (snd (sweep w dev i regs (d, c, t)))
   \<longleftrightarrow> 0 < c \<or> (\<exists>j<length regs. read_register (bus w (i + j)) dev (regs ! j) \<noteq> None)"
proof (induction regs arbitrary: i d c t)
  case Nil
  show ?case by simp
next
  case (Cons reg regs)
  show ?case
  proof (cases "read_register (bus w i) dev reg")
    case None
    then show ?thesis
      using Cons.IH [of "Suc i" d c "t @ [ReadRegister (tag reg), Sleep_ms 80]"]
      by (simp add: ex_less_Suc_shift)
  next
    case (Some v)
    then show ?thesis
      using Cons.IH [of "Suc i" "dict_set d (tag reg) v" "c + 1"
          "t @ [ReadRegister (tag reg), Sleep_ms 80]"]
      by (simp add: ex_less_Suc_shift)
  qed
qed

lemma sweep_data_empty:
  "fst (sweep w dev i regs (d, c, t)) = []
   \<longleftrightarrow> d = [] \<and> \<not> (\<exists>j<length regs. read_register (bus w (i + j)) dev (regs ! j) \<noteq> None)"
proof (induction regs arbitrary: i d c t)
  case Nil
  show ?case by simp
next
  case (Cons reg regs)
  show ?case
  proof (cases "read_register (bus w i) dev reg")
    case None
    then show ?thesis
      using Cons.IH [of "Suc i" d c "t @ [ReadRegister (tag reg), Sleep_ms 80]"]
      by (simp add: ex_less_Suc_shift)
  next
    case (Some v)
    then show ?thesis
      using Cons.IH [of "Suc i" "dict_set d (tag reg) v" "c + 1"
          "t @ [ReadRegister (tag reg), Sleep_ms 80]"]
      by (simp add: ex_less_Suc_shift)
  qed
qed

lemma poll_device_down:
  assumes "\<not> can_acquire w st dev"
  shows "poll_device w st dev =
     (Inr \<lparr>device = name dev, reading_device_type = device_type dev,
           reading_unit_id = unit_id dev, status = ''disconnected'', data = []\<rparr>, st, [])"
  using assms by (simp add: poll_device_def get_client_down)

lemma poll_device_up:
  assumes "registry_ok st" and "can_acquire w st dev"
  shows "poll_device w st dev =
     (Inr \<lparr>device = name dev, reading_device_type = device_type dev,
           reading_unit_id = unit_id dev,
           status = (if \<exists>j<length (registers dev). decodes w dev j
                     then ''connected'' else ''error''),
           data = fst (sweep w dev 0 (registers dev) ([], 0, []))\<rparr>,
      snd (get_client w st dev),
      LockAcquire (transport_key dev) # sweep_steps (registers dev)
        @ [LockRelease (transport_key dev)])"
proof -
  obtain st' where g: "get_client w st dev = (Some (transport_key dev), st')"
    using get_client_up [OF assms(2)] by (cases "get_client w st dev") simp
  have l: "transport_key dev \<in> set (locks st')"
    using get_client_lock [OF assms] g by simp
  obtain vals n tr where s: "sweep w dev 0 (registers dev) ([], 0, []) = (vals, n, tr)"
    by (cases "sweep w dev 0 (registers dev) ([], 0, [])") auto
  have tr: "tr = sweep_steps (registers dev)"
    using sweep_trace [of w dev 0 "registers dev" "[]" 0 "[]"] s by simp
  have n: "0 < n \<longleftrightarrow> (\<exists>j<length (registers dev). decodes w dev j)"
    using sweep_count_pos [of w dev 0 "registers dev" "[]" 0 "[]"] s
    by (simp add: decodes_def)
  show ?thesis
    using g l s tr n by (simp add: poll_device_def Let_def)
qed

lemma poll_device_data_empty:
  assumes "registry_ok st" and "can_acquire w st dev"
  shows "fst (sweep w dev 0 (registers dev) ([], 0, [])) = []
     \<longleftrightarrow> \<not> (\<exists>j<length (registers dev). decodes w dev j)"
  using sweep_data_empty [of w dev 0 "registers dev" "[]" 0 "[]"] by (simp add: decodes_def)

text \<open>
  C3. From a registry in which every cached client has its lock, one poll returns a
  reading. Its status is \<open>disconnected\<close> exactly when the transport cannot be acquired,
  and then it has no values; otherwise it is \<open>connected\<close> with values when at least one
  register decodes, and \<open>error\<close> without values when none does.
\<close>

theorem poll_device_status:
  assumes "registry_ok st"
  shows "\<exists>rd st' tr. poll_device w st dev = (Inr rd, st', tr)
     \<and> (status rd = ''disconnected'' \<longleftrightarrow> \<not> can_acquire w st dev)
     \<and> (if \<not> can_acquire w st dev then status rd = ''disconnected'' \<and> data rd = []
        else if \<exists>j<length (registers dev). decodes w dev j
        then status rd = ''connected'' \<and> data rd \<noteq> []
        else status rd = ''error'' \<and> data rd = [])"
proof (cases "can_acquire w st dev")
  case False
  then show ?thesis
    by (simp add: poll_device_down)
next
  case True
  show ?thesis
    using True poll_device_data_empty [OF assms True]
    by (simp add: poll_device_up [OF assms True])
qed

subsection \<open>A sample cycle\<close>

lemma read_reg_half: "read_register line_up dev reg_half = Some (PInt 50)"
proof -
  have "decode_value [100] reg_half dev = Inr (PInt 100)"
    by (simp add: decode_value_def reg_half_def)
  then have "decode_registers [100] reg_half dev = Some (PInt 50)"
    by (simp add: decode_registers_def decode_body_def reg_half_scaled)
  then show ?thesis
    by (simp add: read_register_def read_body_def line_up_def reg_half_def)
qed

lemma can_acquire_up: "can_acquire world_up st dev"
  by (simp add: can_acquire_def world_up_def)

lemma can_acquire_down: "\<not> can_acquire (world_up\<lparr>connect_ok := False\<rparr>) init_poller dev"
  by (simp add: can_acquire_def init_poller_def)

lemma decodes_up: "decodes w dev_big 0" if "bus w = (\<lambda>i. line_up)"
  using that by (simp add: decodes_def dev_big_def read_reg_half)

lemma sweep_up:
  "bus w = (\<lambda>i. line_up) \<Longrightarrow> sweep w dev_big 0 (registers dev_big) ([], 0, [])
     = ([(''level'', PInt 50)], 1, [ReadRegister ''level'', Sleep_ms 80])"
  by (simp add: dev_big_def read_reg_half) (simp add: reg_half_def)

lemma poll_up:
  assumes "bus w = (\<lambda>i. line_up)" and "connect_ok w"
  shows "poll_device w init_poller dev_big =
     (Inr \<lparr>device = ''meter 1'', reading_device_type = ''energy'', reading_unit_id = 1,
           status = ''connected'', data = [(''level'', PInt 50)]\<rparr>,
      \<lparr>clients = [transport_key dev_big], locks = [transport_key dev_big]\<rparr>,
      [LockAcquire (transport_key dev_big), ReadRegister ''level'', Sleep_ms 80,
       LockRelease (transport_key dev_big)])"
proof -
  have c: "can_acquire w init_poller dev_big"
    using assms by (simp add: can_acquire_def)
  have d: "\<exists>j<length (registers dev_big). decodes w dev_big j"
    using decodes_up [OF assms(1)] by (auto simp: dev_big_def)
  have g: "snd (get_client w init_poller dev_big)
      = \<lparr>clients = [transport_key dev_big], locks = [transport_key dev_big]\<rparr>"
    using assms by (simp add: get_client_def init_poller_def add_key_def Let_def)
  have n: "name dev_big = ''meter 1''" "device_type dev_big = ''energy''" "unit_id dev_big = 1"
    by (simp_all add: dev_big_def)
  have s: "sweep_steps (registers dev_big) = [ReadRegister ''level'', Sleep_ms 80]"
    by (simp add: sweep_steps_def dev_big_def reg_half_def)
  show ?thesis
    unfolding poll_device_up [OF registry_ok_init c] sweep_up [OF assms(1)] g n s
    using d by simp
qed

theorem poll_device_status_witness:
  "registry_ok init_poller
   \<and> fst (poll_device world_up init_poller dev_big)
       = Inr \<lparr>device = ''meter 1'', reading_device_type = ''energy'', reading_unit_id = 1,
              status = ''connected'', data = [(''level'', PInt 50)]\<rparr>
   \<and> fst (poll_device (world_up\<lparr>connect_ok := False\<rparr>) init_poller dev_big)
       = Inr \<lparr>device = ''meter 1'', reading_device_type = ''energy'', reading_unit_id = 1,
              status = ''disconnected'', data = []\<rparr>"
proof -
  have a: "fst (poll_device world_up init_poller dev_big)
       = Inr \<lparr>device = ''meter 1'', reading_device_type = ''energy'', reading_unit_id = 1,
              status = ''connected'', data = [(''level'', PInt 50)]\<rparr>"
    using poll_device_status [OF registry_ok_init, of world_up dev_big]
    by (simp add: poll_up world_up_def)
  have b: "fst (poll_device (world_up\<lparr>connect_ok := False\<rparr>) init_poller dev_big)
       = Inr \<lparr>device = ''meter 1'', reading_device_type = ''energy'', reading_unit_id = 1,
              status = ''disconnected'', data = []\<rparr>"
    using poll_device_status [OF registry_ok_init, of "world_up\<lparr>connect_ok := False\<rparr>" dev_big]
    by (simp add: poll_device_down can_acquire_down dev_big_def)
  show ?thesis
    using a b registry_ok_init by simp
qed

subsection \<open>Pacing\<close>

lemma pacing_sweep_steps: "length (filter is_pacing_delay (sweep_steps regs)) = length regs"
  by (induction regs) (simp_all add: sweep_steps_def)

lemma poll_device_trace:
  assumes "registry_ok st" and "can_acquire w st dev"
  shows "snd (snd (poll_device w st dev))
     = LockAcquire (transport_key dev) # sweep_steps (registers dev)
         @ [LockRelease (transport_key dev)]"
  by (simp add: poll_device_up [OF assms])

text \<open>
  C6, as the code has it. When the transport is acquired, the steps of one poll are:
  take the lock, then for each register in order one read followed by one delay of
  80 ms, then release the lock. The delay is made once per register, the last one
  included, so \<open>n\<close> times for \<open>n\<close> registers.
\<close>

theorem pacing_delay_after_every_register:
  assumes "registry_ok st" and "can_acquire w st dev"
  shows "snd (snd (poll_device w st dev))
       = LockAcquire (transport_key dev)
         # concat (map (\<lambda>r. [ReadRegister (tag r), Sleep_ms 80]) (registers dev))
         @ [LockRelease (transport_key dev)]
     \<and> length (filter is_pacing_delay (snd (snd (poll_device w st dev))))
       = length (registers dev)"
  using pacing_sweep_steps [of "registers dev"]
  by (simp add: poll_device_trace [OF assms]) (simp add: sweep_steps_def)

theorem pacing_delay_after_every_register_witness:
  "registry_ok init_poller \<and> can_acquire world_up init_poller dev_big
   \<and> length (filter is_pacing_delay (snd (snd (poll_device world_up init_poller dev_big))))
       = length (registers dev_big)"
proof -
  have c: "can_acquire world_up init_poller dev_big"
    by (rule can_acquire_up)
  have "length (filter is_pacing_delay (snd (snd (poll_device world_up init_poller dev_big))))
       = length (registers dev_big)"
    using pacing_delay_after_every_register [OF registry_ok_init c] by (rule conjunct2)
  with registry_ok_init c show ?thesis
    by (intro conjI)
qed

text \<open>
  A device with one register: the sweep makes one delay, after its only and last
  register and before the lock is released, where the specification has none.
\<close>

theorem pacing_delay_counterexample:
  "snd (snd (poll_device world_up init_poller dev_big))
     = [LockAcquire (transport_key dev_big), ReadRegister ''level'', Sleep_ms 80,
        LockRelease (transport_key dev_big)]
   \<and> length (registers dev_big) = 1
   \<and> length (filter is_pacing_delay (snd (snd (poll_device world_up init_poller dev_big))))
       \<noteq> length (registers dev_big) - 1"
proof -
  have "snd (snd (poll_device world_up init_poller dev_big))
     = [LockAcquire (transport_key dev_big), ReadRegister ''level'', Sleep_ms 80,
        LockRelease (transport_key dev_big)]"
    by (simp add: poll_up world_up_def)
  moreover have "length (registers dev_big) = 1"
    by (simp add: dev_big_def)
  ultimately show ?thesis by simp
qed

subsection \<open>The steps of one iteration\<close>


lemma publish_tags_no_status: "filter is_status_message (snd (publish_tags w pre ts i kvs)) = []"
  by (induction w pre ts i kvs rule: publish_tags.induct)
    (simp_all add: Let_def split_beta split: pub_outcome.split)


lemma publish_status:
  assumes "mqtt_connected w"
  shows "filter is_status_message (snd (publish w rd base))
     = (if call_returns (broker w 0)
        then [MqttPublish (base @ ''/'' @ replace_spaces (device rd) @ ''/status'')
                (StatusPayload (status rd) (now w)) 1 True]
        else [])"
  using assms
    publish_tags_no_status [of w "base @ ''/'' @ replace_spaces (device rd) @ ''/''" "now w" 2 "data rd"]
  by (simp add: publish_def Let_def split_beta split: pub_outcome.split)

text \<open>
  One iteration is the steps of the poll, then publish calls, then one sleep, of the
  poll period or of five seconds.
\<close>

lemma run_cycle_trace:
  assumes "poll_device w st dev = (Inr rd, st', tr)"
  shows "\<exists>d. snd (run_cycle w st dev base)
       = tr @ (if data rd \<noteq> [] then snd (publish w rd base) else []) @ [Sleep_ms d]
     \<and> (d = poll_period dev \<or> d = 5000)"
proof (cases "data rd = []")
  case True
  with assms show ?thesis
    by (cases "interval_sleep dev") (simp_all add: run_cycle_def)
next
  case False
  obtain res ptr where p: "publish w rd base = (res, ptr)"
    by (cases "publish w rd base") auto
  with assms False show ?thesis
    by (cases res; cases "interval_sleep dev") (simp_all add: run_cycle_def)
qed





lemma no_status_in_sweep: "filter is_status_message (sweep_steps regs) = []"
  by (induction regs) (simp_all add: sweep_steps_def)




lemma round_double_1000: "round_double 1000 = 1000"
  by code_simp

lemma round_double_1: "round_double 1 = 1"
  by code_simp

lemma round_double_1e9: "round_double 1000000000 = 1000000000"
  by code_simp

lemma interval_sleep_dev_big: "interval_sleep (dev_big\<lparr>registers := regs\<rparr>) = None"
proof -
  have "poll_interval (dev_big\<lparr>registers := regs\<rparr>) = Inr (Fin False 1)"
    by (simp add: poll_interval_def dev_big_def float_of_int_def fl_def round_double_1000
        round_double_1)
  moreover have "time_sleep (Fin False 1) = None"
    by (simp add: time_sleep_def fl_def round_double_1e9)
  ultimately show ?thesis
    by (simp add: interval_sleep_def)
qed

lemma interval_sleep_sample: "interval_sleep dev_big = None"
  using interval_sleep_dev_big [of "registers dev_big"] by simp




subsection \<open>Status messages\<close>

lemma publish_down: "\<not> mqtt_connected w \<Longrightarrow> publish w rd base = (Inr False, [])"
  by (simp add: publish_def)

lemma run_cycle_status:
  assumes "registry_ok st" and "can_acquire w st dev"
    and "\<exists>j<length (registers dev). decodes w dev j"
  shows "filter is_status_message (snd (run_cycle w st dev base))
     = (if mqtt_connected w \<and> call_returns (broker w 0)
        then [MqttPublish (base @ ''/'' @ replace_spaces (name dev) @ ''/status'')
                (StatusPayload ''connected'' (now w)) 1 True]
        else [])"
proof -
  let ?rd = "\<lparr>device = name dev, reading_device_type = device_type dev,
           reading_unit_id = unit_id dev,
           status = (if \<exists>j<length (registers dev). decodes w dev j
                     then ''connected'' else ''error''),
           data = fst (sweep w dev 0 (registers dev) ([], 0, []))\<rparr>"
  have ne: "data ?rd \<noteq> []"
    using poll_device_data_empty [OF assms(1,2)] assms(3) by simp
  obtain d where t: "snd (run_cycle w st dev base)
       = (LockAcquire (transport_key dev) # sweep_steps (registers dev)
           @ [LockRelease (transport_key dev)])
         @ (if data ?rd \<noteq> [] then snd (publish w ?rd base) else []) @ [Sleep_ms d]"
    using run_cycle_trace [OF poll_device_up [OF assms(1,2)], of base] by blast
  show ?thesis
  proof (cases "mqtt_connected w")
    case True
    then show ?thesis
      unfolding t using ne assms(3) publish_status [OF True, of ?rd base]
      by (simp add: no_status_in_sweep)
  next
    case False
    then show ?thesis
      unfolding t by (simp add: no_status_in_sweep publish_down)
  qed
qed

lemma read_reg_down: "read_register line_down dev reg_half = None"
  by (simp add: read_register_def read_body_def line_down_def reg_half_def)

lemma poll_line_down:
  assumes "bus w = (\<lambda>i. line_down)" and "connect_ok w"
  shows "poll_device w init_poller dev_big =
     (Inr \<lparr>device = ''meter 1'', reading_device_type = ''energy'', reading_unit_id = 1,
           status = ''error'', data = []\<rparr>,
      \<lparr>clients = [transport_key dev_big], locks = [transport_key dev_big]\<rparr>,
      [LockAcquire (transport_key dev_big), ReadRegister ''level'', Sleep_ms 80,
       LockRelease (transport_key dev_big)])"
proof -
  have c: "can_acquire w init_poller dev_big"
    using assms by (simp add: can_acquire_def)
  have d: "\<not> (\<exists>j<length (registers dev_big). decodes w dev_big j)"
    using assms(1) by (simp add: decodes_def dev_big_def read_reg_down)
  have g: "snd (get_client w init_poller dev_big)
      = \<lparr>clients = [transport_key dev_big], locks = [transport_key dev_big]\<rparr>"
    using assms by (simp add: get_client_def init_poller_def add_key_def Let_def)
  have n: "name dev_big = ''meter 1''" "device_type dev_big = ''energy''" "unit_id dev_big = 1"
    by (simp_all add: dev_big_def)
  have s: "sweep_steps (registers dev_big) = [ReadRegister ''level'', Sleep_ms 80]"
    by (simp add: sweep_steps_def dev_big_def reg_half_def)
  have e: "fst (sweep w dev_big 0 (registers dev_big) ([], 0, [])) = []"
    using poll_device_data_empty [OF registry_ok_init c] d by simp
  show ?thesis
    unfolding poll_device_up [OF registry_ok_init c] g n s e
    using d by simp
qed

lemma publish_empty_reading:
  assumes "mqtt_connected w" and "broker w 0 = PubRc rc" and "data rd = []"
  shows "publish w rd base =
     (Inr False, [MqttPublish (base @ ''/'' @ replace_spaces (device rd) @ ''/status'')
                    (StatusPayload (status rd) (now w)) 1 True])"
  using assms by (simp add: publish_def Let_def)

text \<open>
  C8. One status message in every completed cycle, the cycles without values
  included, is not what the thread does. With the MQTT session up and every publish
  call succeeding, a cycle whose transport cannot be opened ends with the normal
  sleep of the poll period and has published nothing, and so does a cycle in which
  the only register fails to read. Their readings have the status \<open>disconnected\<close>
  and \<open>error\<close> and no values; the loop hands a reading to the publisher only when it
  has values. The publisher, given either reading, sends exactly the status message
  and stops at its own test for values.
\<close>

theorem status_message_missing:
  "run_cycle (world_up\<lparr>connect_ok := False\<rparr>) init_poller dev_big ''modbus''
     = (init_poller, [Sleep_ms 1000])
   \<and> fst (poll_device (world_up\<lparr>connect_ok := False\<rparr>) init_poller dev_big)
     = Inr \<lparr>device = ''meter 1'', reading_device_type = ''energy'', reading_unit_id = 1,
            status = ''disconnected'', data = []\<rparr>
   \<and> publish (world_up\<lparr>connect_ok := False\<rparr>)
       \<lparr>device = ''meter 1'', reading_device_type = ''energy'', reading_unit_id = 1,
        status = ''disconnected'', data = []\<rparr> ''modbus''
     = (Inr False, [MqttPublish ''modbus/meter_1/status''
                      (StatusPayload ''disconnected'' ''2024-01-01T00:00:00Z'') 1 True])
   \<and> snd (run_cycle (world_up\<lparr>bus := (\<lambda>i. line_down)\<rparr>) init_poller dev_big ''modbus'')
     = [LockAcquire (transport_key dev_big), ReadRegister ''level'', Sleep_ms 80,
        LockRelease (transport_key dev_big), Sleep_ms 1000]
   \<and> fst (poll_device (world_up\<lparr>bus := (\<lambda>i. line_down)\<rparr>) init_poller dev_big)
     = Inr \<lparr>device = ''meter 1'', reading_device_type = ''energy'', reading_unit_id = 1,
            status = ''error'', data = []\<rparr>
   \<and> publish (world_up\<lparr>bus := (\<lambda>i. line_down)\<rparr>)
       \<lparr>device = ''meter 1'', reading_device_type = ''energy'', reading_unit_id = 1,
        status = ''error'', data = []\<rparr> ''modbus''
     = (Inr False, [MqttPublish ''modbus/meter_1/status''
                      (StatusPayload ''error'' ''2024-01-01T00:00:00Z'') 1 True])"
proof -
  have pp: "poll_period dev_big = 1000"
    by (simp add: dev_big_def)
  have p1: "poll_device (world_up\<lparr>connect_ok := False\<rparr>) init_poller dev_big
     = (Inr \<lparr>device = ''meter 1'', reading_device_type = ''energy'', reading_unit_id = 1,
             status = ''disconnected'', data = []\<rparr>, init_poller, [])"
    by (simp add: poll_device_down can_acquire_down) (simp add: dev_big_def)
  have r1: "run_cycle (world_up\<lparr>connect_ok := False\<rparr>) init_poller dev_big ''modbus''
     = (init_poller, [Sleep_ms 1000])"
    by (simp add: run_cycle_def p1 interval_sleep_sample pp)
  have u1: "publish (world_up\<lparr>connect_ok := False\<rparr>)
       \<lparr>device = ''meter 1'', reading_device_type = ''energy'', reading_unit_id = 1,
        status = ''disconnected'', data = []\<rparr> ''modbus''
     = (Inr False, [MqttPublish ''modbus/meter_1/status''
                      (StatusPayload ''disconnected'' ''2024-01-01T00:00:00Z'') 1 True])"
    by (simp add: publish_empty_reading [of _ 0] world_up_def replace_spaces_def)
  have p2: "poll_device (world_up\<lparr>bus := (\<lambda>i. line_down)\<rparr>) init_poller dev_big =
     (Inr \<lparr>device = ''meter 1'', reading_device_type = ''energy'', reading_unit_id = 1,
           status = ''error'', data = []\<rparr>,
      \<lparr>clients = [transport_key dev_big], locks = [transport_key dev_big]\<rparr>,
      [LockAcquire (transport_key dev_big), ReadRegister ''level'', Sleep_ms 80,
       LockRelease (transport_key dev_big)])"
    by (rule poll_line_down) (simp_all add: world_up_def)
  have r2: "snd (run_cycle (world_up\<lparr>bus := (\<lambda>i. line_down)\<rparr>) init_poller dev_big ''modbus'')
     = [LockAcquire (transport_key dev_big), ReadRegister ''level'', Sleep_ms 80,
        LockRelease (transport_key dev_big), Sleep_ms 1000]"
    by (simp add: run_cycle_def p2 interval_sleep_sample pp)
  have u2: "publish (world_up\<lparr>bus := (\<lambda>i. line_down)\<rparr>)
       \<lparr>device = ''meter 1'', reading_device_type = ''energy'', reading_unit_id = 1,
        status = ''error'', data = []\<rparr> ''modbus''
     = (Inr False, [MqttPublish ''modbus/meter_1/status''
                      (StatusPayload ''error'' ''2024-01-01T00:00:00Z'') 1 True])"
    by (simp add: publish_empty_reading [of _ 0] world_up_def replace_spaces_def)
  show ?thesis
    using p1 r1 u1 p2 r2 u2 by simp
qed

section \<open>Facts about loading a register definition\<close>

lemma type_mapping_words:
  assumes "(case map_of TYPE_MAPPING t of None \<Rightarrow> (''uint16'', 1) | Some p \<Rightarrow> p) = (m, c)"
  shows "type_words m = Some c"
  using assms by (auto simp: TYPE_MAPPING_def type_words_def split: if_splits)

lemma parse_register_count:
  assumes "parse_register cfg = Some reg"
  shows "count reg = (case cfg_objectsCount cfg of
             None \<Rightarrow> snd (case map_of TYPE_MAPPING
                              (case cfg_type cfg of None \<Rightarrow> ''16uint'' | Some t \<Rightarrow> t) of
                            None \<Rightarrow> (''uint16'', 1) | Some p \<Rightarrow> p)
           | Some c \<Rightarrow> c)
     \<and> data_type reg = fst (case map_of TYPE_MAPPING
                              (case cfg_type cfg of None \<Rightarrow> ''16uint'' | Some t \<Rightarrow> t) of
                            None \<Rightarrow> (''uint16'', 1) | Some p \<Rightarrow> p)"
  using assms
  by (auto simp: parse_register_def Let_def split_beta split: option.splits sum.splits)

lemma parse_register_words:
  assumes "parse_register cfg = Some reg"
  shows "(cfg_objectsCount cfg = None \<longrightarrow> type_words (data_type reg) = Some (count reg))
     \<and> (\<forall>c. cfg_objectsCount cfg = Some c \<longrightarrow> count reg = c)"
proof -
  let ?p = "case map_of TYPE_MAPPING (case cfg_type cfg of None \<Rightarrow> ''16uint'' | Some t \<Rightarrow> t) of
              None \<Rightarrow> (''uint16'', 1) | Some p \<Rightarrow> p"
  have "type_words (fst ?p) = Some (snd ?p)"
    by (rule type_mapping_words [of _ "fst ?p" "snd ?p"]) simp
  then show ?thesis
    using parse_register_count [OF assms] by (auto split: option.splits)
qed

lemma parse_register_explicit_count:
  "parse_register (cfg\<lparr>cfg_objectsCount := Some c\<rparr>)
   = map_option (\<lambda>r. r\<lparr>count := c\<rparr>) (parse_register (cfg\<lparr>cfg_objectsCount := None\<rparr>))"
  by (simp add: parse_register_def Let_def split_beta split: option.splits sum.splits)

lemma parse_register_accepts:
  "parse_register cfg \<noteq> None \<longleftrightarrow>
     cfg_tag cfg \<noteq> None \<and> cfg_address cfg \<noteq> None \<and> cfg_functionCode cfg \<noteq> None
     \<and> \<not> isl (float_or_one (cfg_divider cfg)) \<and> \<not> isl (float_or_one (cfg_multiplier cfg))"
  by (simp add: parse_register_def Let_def split_beta split: option.splits sum.splits)

text \<open>
  C9, as the code has it. A register definition is accepted exactly when it has a
  tag, an address and a function code and its divider and multiplier convert to
  floats: the word count plays no part. Accepted without an explicit \<open>objectsCount\<close>,
  it has the word count of its value type (1, 2 or 4). With an explicit
  \<open>objectsCount\<close> it is accepted whenever the same definition without one is, and is
  the same register with that count, whatever the type.
\<close>

theorem parse_register_word_count:
  "(parse_register cfg = Some reg \<longrightarrow>
       (cfg_objectsCount cfg = None \<longrightarrow> type_words (data_type reg) = Some (count reg))
     \<and> (\<forall>c. cfg_objectsCount cfg = Some c \<longrightarrow> count reg = c))
   \<and> parse_register (cfg\<lparr>cfg_objectsCount := Some c\<rparr>)
       = map_option (\<lambda>r. r\<lparr>count := c\<rparr>) (parse_register (cfg\<lparr>cfg_objectsCount := None\<rparr>))
   \<and> (parse_register cfg \<noteq> None \<longleftrightarrow>
        cfg_tag cfg \<noteq> None \<and> cfg_address cfg \<noteq> None \<and> cfg_functionCode cfg \<noteq> None
        \<and> \<not> isl (float_or_one (cfg_divider cfg)) \<and> \<not> isl (float_or_one (cfg_multiplier cfg)))"
proof -
  have "parse_register cfg = Some reg \<longrightarrow>
       (cfg_objectsCount cfg = None \<longrightarrow> type_words (data_type reg) = Some (count reg))
     \<and> (\<forall>c. cfg_objectsCount cfg = Some c \<longrightarrow> count reg = c)"
    using parse_register_words [of cfg reg] by blast
  then show ?thesis
    using parse_register_explicit_count [where cfg = cfg and c = c]
      parse_register_accepts [of cfg]
    by (intro conjI) assumption+
qed

lemma parse_mismatch:
  "parse_register (cfg_mismatch\<lparr>cfg_objectsCount := n\<rparr>) =
     Some \<lparr>tag = ''energy'', address = 0, function_code = 3,
           count = (case n of None \<Rightarrow> 2 | Some c \<Rightarrow> c),
           data_type = ''uint32'', divider = Fin False 1, multiplier = Fin False 1\<rparr>"
  by (simp add: parse_register_def cfg_mismatch_def TYPE_MAPPING_def float_or_one_def one_float_def)

theorem parse_register_word_count_witness:
  "parse_register (cfg_mismatch\<lparr>cfg_objectsCount := None\<rparr>) =
     Some \<lparr>tag = ''energy'', address = 0, function_code = 3, count = 2,
           data_type = ''uint32'', divider = Fin False 1, multiplier = Fin False 1\<rparr>
   \<and> type_words ''uint32'' = Some 2
   \<and> parse_register (cfg_mismatch\<lparr>cfg_objectsCount := Some 1\<rparr>) =
     Some \<lparr>tag = ''energy'', address = 0, function_code = 3, count = 1,
           data_type = ''uint32'', divider = Fin False 1, multiplier = Fin False 1\<rparr>"
proof -
  let ?reg = "\<lparr>tag = ''energy'', address = 0, function_code = 3, count = 2,
           data_type = ''uint32'', divider = Fin False 1, multiplier = Fin False 1\<rparr>"
  have p: "parse_register (cfg_mismatch\<lparr>cfg_objectsCount := None\<rparr>) = Some ?reg"
    by (simp add: parse_mismatch)
  note t = parse_register_word_count [where cfg = "cfg_mismatch\<lparr>cfg_objectsCount := None\<rparr>"
      and reg = ?reg and c = 1]
  have "type_words ''uint32'' = Some 2"
    using t [THEN conjunct1] p by simp
  moreover have "parse_register (cfg_mismatch\<lparr>cfg_objectsCount := Some 1\<rparr>) =
     Some \<lparr>tag = ''energy'', address = 0, function_code = 3, count = 1,
           data_type = ''uint32'', divider = Fin False 1, multiplier = Fin False 1\<rparr>"
    using t [THEN conjunct2, THEN conjunct1] p by simp
  ultimately show ?thesis
    using p by simp
qed

text \<open>
  A 32-bit unsigned type with an explicit count of one word is accepted at load time,
  one word against the two of its type, and the decoder then takes that single word
  as the value.
\<close>

theorem parse_register_counterexample:
  "parse_register cfg_mismatch =
     Some \<lparr>tag = ''energy'', address = 0, function_code = 3, count = 1,
           data_type = ''uint32'', divider = Fin False 1, multiplier = Fin False 1\<rparr>
   \<and> type_words ''uint32'' = Some 2
   \<and> decode_registers [7]
        \<lparr>tag = ''energy'', address = 0, function_code = 3, count = 1,
         data_type = ''uint32'', divider = Fin False 1, multiplier = Fin False 1\<rparr> dev_big
     = Some (PInt 7)"
proof -
  have "cfg_mismatch\<lparr>cfg_objectsCount := Some 1\<rparr> = cfg_mismatch"
    by (simp add: cfg_mismatch_def)
  then have "parse_register cfg_mismatch =
     Some \<lparr>tag = ''energy'', address = 0, function_code = 3, count = 1,
           data_type = ''uint32'', divider = Fin False 1, multiplier = Fin False 1\<rparr>"
    using parse_mismatch [of "Some 1"] by simp
  moreover have "type_words ''uint32'' = Some 2"
    by (simp add: type_words_def)
  moreover have "decode_registers [7]
        \<lparr>tag = ''energy'', address = 0, function_code = 3, count = 1,
         data_type = ''uint32'', divider = Fin False 1, multiplier = Fin False 1\<rparr> dev_big
     = Some (PInt 7)"
    by (simp add: decode_registers_def decode_body_def decode_value_def apply_scaling_def
        needs_scaling_def one_float_def)
  ultimately show ?thesis by simp
qed

end
